theory Spec2Isabelle
  imports Main
begin

section \<open>JavaScript values and JSON\<close>

text \<open>
  The records of a table are JavaScript values. Numbers are restricted to integers; an
  object is the list of its own properties in insertion order. \<open>json\<close> is the syntax
  tree of a JSON text: \<open>JSON.stringify\<close> produces one and \<open>JSON.parse\<close> reads one, so the
  string held by a snapshot or written to the data file is represented by its tree.
\<close>

datatype jsval =
    JUndefined
  | JNull
  | JBool bool
  | JNum int
  | JStr string
  | JArr "jsval list"
  | JObj "(string \<times> jsval) list"

datatype json =
    TNull
  | TBool bool
  | TNum int
  | TStr string
  | TArr "json list"
  | TObj "(string \<times> json) list"

text \<open>
  \<open>JSON.stringify\<close>: a property whose value is \<open>undefined\<close> is left out of an object, an
  \<open>undefined\<close> array element is written as \<open>null\<close>. (It is only ever called on the table,
  an array, so the top-level \<open>undefined\<close> result does not arise.)
\<close>

fun JSON_stringify :: "jsval \<Rightarrow> json" where
  "JSON_stringify JUndefined = TNull"
| "JSON_stringify JNull = TNull"
| "JSON_stringify (JBool b) = TBool b"
| "JSON_stringify (JNum n) = TNum n"
| "JSON_stringify (JStr s) = TStr s"
| "JSON_stringify (JArr xs) = TArr (map JSON_stringify xs)"
| "JSON_stringify (JObj kvs) =
     TObj (map (\<lambda>kv. (fst kv, JSON_stringify (snd kv)))
               (filter (\<lambda>kv. snd kv \<noteq> JUndefined) kvs))"

fun JSON_parse :: "json \<Rightarrow> jsval" where
  "JSON_parse TNull = JNull"
| "JSON_parse (TBool b) = JBool b"
| "JSON_parse (TNum n) = JNum n"
| "JSON_parse (TStr s) = JStr s"
| "JSON_parse (TArr xs) = JArr (map JSON_parse xs)"
| "JSON_parse (TObj kvs) = JObj (map (\<lambda>kv. (fst kv, JSON_parse (snd kv))) kvs)"

text \<open>A value that JSON represents exactly: no \<open>undefined\<close> anywhere inside it.\<close>

fun json_clean :: "jsval \<Rightarrow> bool" where
  "json_clean JUndefined = False"
| "json_clean (JArr xs) = list_all json_clean xs"
| "json_clean (JObj kvs) = list_all (\<lambda>kv. json_clean (snd kv)) kvs"
| "json_clean _ = True"

text \<open>The elements of a value used as a table (\<open>T[]\<close>).\<close>

fun elements :: "jsval \<Rightarrow> jsval list" where
  "elements (JArr xs) = xs"
| "elements _ = []"

text \<open>
  Object spread \<open>{ ...a, ...b }\<close>: the own properties of \<open>a\<close>, then those of \<open>b\<close>, each
  assigned to a fresh object. Assigning an existing key replaces its value in place,
  assigning a new key appends it. A value that is not an object contributes nothing.
\<close>

fun props :: "jsval \<Rightarrow> (string \<times> jsval) list" where
  "props (JObj kvs) = kvs"
| "props _ = []"

fun set_prop :: "string \<Rightarrow> jsval \<Rightarrow> (string \<times> jsval) list \<Rightarrow> (string \<times> jsval) list" where
  "set_prop k v [] = [(k, v)]"
| "set_prop k v (kv # kvs) =
     (if fst kv = k then (k, v) # kvs else kv # set_prop k v kvs)"

definition assign_all :: "(string \<times> jsval) list \<Rightarrow> (string \<times> jsval) list \<Rightarrow> (string \<times> jsval) list" where
  "assign_all target src = foldl (\<lambda>acc kv. set_prop (fst kv) (snd kv) acc) target src"

definition object_spread :: "jsval \<Rightarrow> jsval \<Rightarrow> jsval" where
  "object_spread a b = JObj (assign_all (assign_all [] (props a)) (props b))"

text \<open>Reading a property; where a property list repeats a key the last entry counts.\<close>

definition get_prop :: "jsval \<Rightarrow> string \<Rightarrow> jsval option" where
  "get_prop obj k = map_of (rev (props obj)) k"

subsection \<open>Array helpers\<close>

fun findIndex :: "('a \<Rightarrow> bool) \<Rightarrow> 'a list \<Rightarrow> int" where
  "findIndex p [] = - 1"
| "findIndex p (x # xs) =
     (if p x then 0 else (let i = findIndex p xs in if i < 0 then - 1 else i + 1))"

definition indexOf :: "'a list \<Rightarrow> 'a \<Rightarrow> int" where
  "indexOf xs x = findIndex (\<lambda>y. y = x) xs"

text \<open>\<open>xs.splice(i, 1)\<close> for an index inside the array.\<close>

definition splice1 :: "'a list \<Rightarrow> nat \<Rightarrow> 'a list" where
  "splice1 xs i = take i xs @ drop (Suc i) xs"

section \<open>Errors\<close>

text \<open>
  \<open>Error\<close> is a plain error thrown by caller code; the others are the classes of
  \<open>customError/Errors\<close>: \<open>DatabaseError message code\<close>,
  \<open>TransactionError message details.originalError\<close> and \<open>LockError message\<close>.
\<close>

datatype js_error =
    Error string
  | DatabaseError string string
  | TransactionError string "js_error option"
  | LockError string

fun message :: "js_error \<Rightarrow> string" where
  "message (Error m) = m"
| "message (DatabaseError m c) = m"
| "message (TransactionError m d) = m"
| "message (LockError m) = m"

section \<open>Mutex (storage/Lock.ts)\<close>

text \<open>
  The queue holds function values. \<open>Resolve p\<close> is the \<open>resolve\<close> function of the promise
  \<open>p\<close> that an \<open>acquire()\<close> call returned; \<open>Waiter p\<close> is the closure
  \<open>() => { clearTimeout(timer); resolve(); }\<close> that the same call pushed.
\<close>

datatype callback = Resolve nat | Waiter nat

record Mutex =
  locked :: bool
  queue :: "callback list"
  timeout :: nat

definition Mutex_new :: Mutex where
  "Mutex_new = \<lparr>locked = False, queue = [], timeout = 5000\<rparr>"

definition isLocked :: "Mutex \<Rightarrow> bool" where
  "isLocked m = locked m"

text \<open>
  \<open>acquire()\<close> for the promise \<open>p\<close>: the flag says whether the lock was granted at once; if
  not, the waiter is queued (and its timer started, see \<open>acquire\<close> below).
\<close>

definition Mutex_acquire :: "nat \<Rightarrow> Mutex \<Rightarrow> bool \<times> Mutex" where
  "Mutex_acquire p m =
     (if \<not> locked m then (True, m\<lparr>locked := True\<rparr>)
      else (False, m\<lparr>queue := queue m @ [Waiter p]\<rparr>))"

text \<open>\<open>release()\<close>: returns the callback \<open>next\<close> it calls, if any.\<close>

definition Mutex_release :: "Mutex \<Rightarrow> callback option \<times> Mutex" where
  "Mutex_release m =
     (case queue m of
        [] \<Rightarrow> (None, m\<lparr>locked := False\<rparr>)
      | next # rest \<Rightarrow> (Some next, m\<lparr>queue := rest\<rparr>))"

definition forceRelease :: "Mutex \<Rightarrow> Mutex" where
  "forceRelease m = m\<lparr>locked := False, queue := []\<rparr>"

definition getQueueSize :: "Mutex \<Rightarrow> nat" where
  "getQueueSize m = length (queue m)"

text \<open>The queue part of the timer callback of promise \<open>p\<close>.\<close>

definition Mutex_on_timeout :: "nat \<Rightarrow> Mutex \<Rightarrow> Mutex" where
  "Mutex_on_timeout p m =
     (let index = indexOf (queue m) (Resolve p)
      in if index > - 1 then m\<lparr>queue := splice1 (queue m) (nat index)\<rparr> else m)"

subsection \<open>Promises and timers around the Mutex\<close>

text \<open>
  The callers of one Mutex: the state of each promise returned by \<open>acquire()\<close> and the
  timers that are set. A settled promise ignores further \<open>resolve\<close> and \<open>reject\<close> calls.
\<close>

datatype promise_state = Pending | Fulfilled | Rejected js_error

record runtime =
  mutex :: Mutex
  promises :: "nat \<Rightarrow> promise_state option"
  timers :: "nat list"

definition resolve :: "nat \<Rightarrow> runtime \<Rightarrow> runtime" where
  "resolve p rt =
     (if promises rt p = Some Pending then rt\<lparr>promises := (promises rt)(p \<mapsto> Fulfilled)\<rparr> else rt)"

definition reject :: "nat \<Rightarrow> js_error \<Rightarrow> runtime \<Rightarrow> runtime" where
  "reject p e rt =
     (if promises rt p = Some Pending then rt\<lparr>promises := (promises rt)(p \<mapsto> Rejected e)\<rparr> else rt)"

definition clearTimeout :: "nat \<Rightarrow> runtime \<Rightarrow> runtime" where
  "clearTimeout p rt = rt\<lparr>timers := removeAll p (timers rt)\<rparr>"

fun call :: "callback \<Rightarrow> runtime \<Rightarrow> runtime" where
  "call (Resolve p) rt = resolve p rt"
| "call (Waiter p) rt = resolve p (clearTimeout p rt)"

text \<open>\<open>acquire()\<close> returning the new promise \<open>p\<close>.\<close>

definition acquire :: "nat \<Rightarrow> runtime \<Rightarrow> runtime" where
  "acquire p rt =
     (case Mutex_acquire p (mutex rt) of
        (True, m) \<Rightarrow> rt\<lparr>mutex := m, promises := (promises rt)(p \<mapsto> Fulfilled)\<rparr>
      | (False, m) \<Rightarrow>
          rt\<lparr>mutex := m, promises := (promises rt)(p \<mapsto> Pending), timers := timers rt @ [p]\<rparr>)"

definition release :: "runtime \<Rightarrow> runtime" where
  "release rt =
     (case Mutex_release (mutex rt) of
        (None, m) \<Rightarrow> rt\<lparr>mutex := m\<rparr>
      | (Some next, m) \<Rightarrow> call next (rt\<lparr>mutex := m\<rparr>))"

text \<open>The timer of promise \<open>p\<close> fires after \<open>timeout\<close> milliseconds, if it is still set.\<close>

definition fire_timer :: "nat \<Rightarrow> runtime \<Rightarrow> runtime" where
  "fire_timer p rt =
     (if p \<in> set (timers rt)
      then reject p (LockError ''Lock acquisition timeout'')
             (rt\<lparr>mutex := Mutex_on_timeout p (mutex rt), timers := removeAll p (timers rt)\<rparr>)
      else rt)"

text \<open>A run of \<open>acquire()\<close> calls, in the order given, and a run of \<open>n\<close> \<open>release()\<close> calls.\<close>

fun acquires :: "nat list \<Rightarrow> runtime \<Rightarrow> runtime" where
  "acquires [] rt = rt"
| "acquires (p # ps) rt = acquires ps (acquire p rt)"

fun releases :: "nat \<Rightarrow> runtime \<Rightarrow> runtime" where
  "releases 0 rt = rt"
| "releases (Suc n) rt = releases n (release rt)"

text \<open>The callbacks that a run of \<open>n\<close> \<open>release()\<close> calls invokes, one entry for each call.\<close>

fun released :: "nat \<Rightarrow> runtime \<Rightarrow> callback option list" where
  "released 0 rt = []"
| "released (Suc n) rt = fst (Mutex_release (mutex rt)) # released n (release rt)"

section \<open>Write-ahead log (storage/WAL.ts)\<close>

text \<open>The field \<open>data\<close> of a log entry is called \<open>payload\<close> here.\<close>

datatype OperationType = INSERT | UPDATE | DELETE | BEGIN | COMMIT | ROLLBACK

record LogEntry =
  timestamp :: nat
  type :: OperationType
  payload :: "jsval option"
  transactionId :: "string option"

record WAL =
  walPath :: string
  checkpointThreshold :: nat

definition WAL_new :: "string \<Rightarrow> WAL" where
  "WAL_new dbPath = \<lparr>walPath = dbPath @ ''.wal'', checkpointThreshold = 100\<rparr>"

text \<open>
  The log file: absent (\<open>None\<close>) or a list of lines. A line written by \<open>log\<close> is the JSON
  text of one entry and parses back to it; \<open>Malformed\<close> is a line that \<open>JSON.parse\<close>
  rejects. A file-system call takes the message of the error it fails with, if it fails.
\<close>

datatype wal_line = Line LogEntry | Malformed

type_synonym wal_file = "wal_line list option"

definition WAL_log :: "string option \<Rightarrow> LogEntry \<Rightarrow> wal_file \<Rightarrow> js_error + wal_file" where
  "WAL_log fault entry f =
     (case fault of
        Some msg \<Rightarrow> Inl (DatabaseError (''Failed to write to WAL: '' @ msg) ''WAL_WRITE_ERROR'')
      | None \<Rightarrow> Inr (Some ((case f of None \<Rightarrow> [] | Some ls \<Rightarrow> ls) @ [Line entry])))"

text \<open>\<open>lines.map(line => JSON.parse(line))\<close>\<close>

fun parse_lines :: "wal_line list \<Rightarrow> LogEntry list option" where
  "parse_lines [] = Some []"
| "parse_lines (Line e # ls) = map_option (\<lambda>es. e # es) (parse_lines ls)"
| "parse_lines (Malformed # ls) = None"

definition readLog :: "wal_file \<Rightarrow> js_error + LogEntry list" where
  "readLog f =
     (case f of
        None \<Rightarrow> Inr []
      | Some ls \<Rightarrow>
          (case parse_lines ls of
             None \<Rightarrow> Inl (DatabaseError ''Failed to read WAL: Unexpected token'' ''WAL_READ_ERROR'')
           | Some es \<Rightarrow> Inr es))"

text \<open>
  The entries the logging methods build: \<open>logBegin\<close>, \<open>logCommit\<close> and \<open>logRollback\<close> a
  marker of a transaction, \<open>logInsert\<close>, \<open>logUpdate\<close> and \<open>logDelete\<close> an operation with
  its data; \<open>now\<close> is \<open>Date.now()\<close>.
\<close>

definition marker_entry :: "nat \<Rightarrow> OperationType \<Rightarrow> string \<Rightarrow> LogEntry" where
  "marker_entry now ty tid = \<lparr>timestamp = now, type = ty, payload = None, transactionId = Some tid\<rparr>"

definition op_entry :: "nat \<Rightarrow> OperationType \<Rightarrow> jsval \<Rightarrow> string option \<Rightarrow> LogEntry" where
  "op_entry now ty v tid = \<lparr>timestamp = now, type = ty, payload = Some v, transactionId = tid\<rparr>"

subsection \<open>replay\<close>

text \<open>
  \<open>Map<string, LogEntry[]>\<close> keeps its keys in insertion order: \<open>set\<close> on a key that is
  present replaces the value where it stands, on a new key it appends.
\<close>

type_synonym txmap = "(string \<times> LogEntry list) list"

fun Map_set :: "string \<Rightarrow> LogEntry list \<Rightarrow> txmap \<Rightarrow> txmap" where
  "Map_set k v [] = [(k, v)]"
| "Map_set k v (kv # m) = (if fst kv = k then (k, v) # m else kv # Map_set k v m)"

definition Map_delete :: "string \<Rightarrow> txmap \<Rightarrow> txmap" where
  "Map_delete k m = filter (\<lambda>kv. fst kv \<noteq> k) m"

definition Map_get :: "txmap \<Rightarrow> string \<Rightarrow> LogEntry list option" where
  "Map_get m k = map_of m k"

definition Map_values :: "txmap \<Rightarrow> LogEntry list list" where
  "Map_values m = map snd m"

text \<open>\<open>if (entry.transactionId)\<close>: an absent identifier and the empty string are falsy.\<close>

definition truthy :: "string option \<Rightarrow> bool" where
  "truthy s = (case s of None \<Rightarrow> False | Some t \<Rightarrow> t \<noteq> [])"

text \<open>The body of the loop over the entries.\<close>

definition replay_step :: "LogEntry list \<times> txmap \<Rightarrow> LogEntry \<Rightarrow> LogEntry list \<times> txmap" where
  "replay_step st entry =
     (let uncommitted = fst st; transactions = snd st in
      if truthy (transactionId entry) then
        (let tid = the (transactionId entry) in
         if type entry = BEGIN then (uncommitted, Map_set tid [] transactions)
         else if type entry = COMMIT then (uncommitted, Map_delete tid transactions)
         else if type entry = ROLLBACK then (uncommitted, Map_delete tid transactions)
         else
           (let txOps = (case Map_get transactions tid of Some ops \<Rightarrow> ops | None \<Rightarrow> [])
            in (uncommitted, Map_set tid (txOps @ [entry]) transactions)))
      else
        (if type entry \<noteq> BEGIN \<and> type entry \<noteq> COMMIT \<and> type entry \<noteq> ROLLBACK
         then (uncommitted @ [entry], transactions)
         else (uncommitted, transactions)))"

definition replay_entries :: "LogEntry list \<Rightarrow> LogEntry list" where
  "replay_entries entries =
     (let st = foldl replay_step ([], []) entries
      in fst st @ concat (Map_values (snd st)))"

definition replay :: "wal_file \<Rightarrow> js_error + LogEntry list" where
  "replay f = (case readLog f of Inl e \<Rightarrow> Inl e | Inr entries \<Rightarrow> Inr (replay_entries entries))"

text \<open>
  What the result is stated on: the markers, the entries outside any transaction, and for
  a transaction identifier its entries that follow its last marker in the log (all of
  its entries when it has no marker).
\<close>

definition is_marker :: "LogEntry \<Rightarrow> bool" where
  "is_marker e = (type e = BEGIN \<or> type e = COMMIT \<or> type e = ROLLBACK)"

definition non_transactional :: "LogEntry list \<Rightarrow> LogEntry list" where
  "non_transactional es = filter (\<lambda>e. \<not> truthy (transactionId e) \<and> \<not> is_marker e) es"

definition since_last_marker :: "string \<Rightarrow> LogEntry list \<Rightarrow> LogEntry list" where
  "since_last_marker tid es =
     rev (takeWhile (\<lambda>e. \<not> is_marker e) (rev (filter (\<lambda>e. transactionId e = Some tid) es)))"

subsection \<open>checkpoint\<close>

definition checkpoint :: "string option \<Rightarrow> wal_file \<Rightarrow> js_error + wal_file" where
  "checkpoint fault f =
     (case f of
        None \<Rightarrow> Inr None
      | Some ls \<Rightarrow>
          (case fault of
             Some msg \<Rightarrow>
               Inl (DatabaseError (''Failed to checkpoint WAL: '' @ msg) ''WAL_CHECKPOINT_ERROR'')
           | None \<Rightarrow> Inr (Some [])))"

definition getSize :: "wal_file \<Rightarrow> js_error + nat" where
  "getSize f = (case readLog f of Inl e \<Rightarrow> Inl e | Inr entries \<Rightarrow> Inr (length entries))"

definition needsCheckpoint :: "WAL \<Rightarrow> wal_file \<Rightarrow> js_error + bool" where
  "needsCheckpoint w f =
     (case getSize f of Inl e \<Rightarrow> Inl e | Inr n \<Rightarrow> Inr (n \<ge> checkpointThreshold w))"

definition destroy :: "string option \<Rightarrow> wal_file \<Rightarrow> js_error + wal_file" where
  "destroy fault f =
     (case f of
        None \<Rightarrow> Inr None
      | Some ls \<Rightarrow>
          (case fault of
             Some msg \<Rightarrow> Inl (DatabaseError (''Failed to destroy WAL: '' @ msg) ''WAL_DESTROY_ERROR'')
           | None \<Rightarrow> Inr None))"

text \<open>Appending a list of entries, each append succeeding.\<close>

fun log_all :: "LogEntry list \<Rightarrow> wal_file \<Rightarrow> js_error + wal_file" where
  "log_all [] f = Inr f"
| "log_all (e # es) f = (case WAL_log None e f of Inl err \<Rightarrow> Inl err | Inr f' \<Rightarrow> log_all es f')"

section \<open>Configuration (lib/config.ts)\<close>

text \<open>A key the caller leaves out is \<open>None\<close>. The fields not used here are left out.\<close>

record LuxDBConfig =
  fileName :: string
  destination :: "string option"
  enableWAL :: "bool option"
  walCheckpointThreshold :: "nat option"
  lockTimeout :: "nat option"
  autoId :: "bool option"
  prettyPrint :: "bool option"
  validate :: "bool option"

definition or_default :: "'a option \<Rightarrow> 'a \<Rightarrow> 'a option" where
  "or_default x d = (case x of None \<Rightarrow> Some d | Some v \<Rightarrow> Some v)"

text \<open>\<open>{ ...DEFAULT_CONFIG, ...userConfig }\<close>\<close>

definition mergeConfig :: "LuxDBConfig \<Rightarrow> LuxDBConfig" where
  "mergeConfig userConfig =
     userConfig\<lparr>destination := or_default (destination userConfig) ''db'',
                enableWAL := or_default (enableWAL userConfig) True,
                walCheckpointThreshold := or_default (walCheckpointThreshold userConfig) 100,
                lockTimeout := or_default (lockTimeout userConfig) 5000,
                autoId := or_default (autoId userConfig) True,
                prettyPrint := or_default (prettyPrint userConfig) True,
                validate := or_default (validate userConfig) False\<rparr>"

section \<open>The database (lib/LuxDB.ts) and its file store (storage/FileStore.ts)\<close>

text \<open>
  The data file is absent (\<open>None\<close>) or holds a text: a JSON document; nothing but white
  space (\<open>Emptied\<close>); or the beginning of a document that a write did not finish
  (\<open>Cut_off\<close>), which does not parse.
\<close>

datatype file_content = Document json | Emptied | Cut_off

text \<open>
  What a direct mutating call does, in the order it does it: it gets the lock, it may
  write the table to the data file (the document written, or the error), it releases
  the lock.
\<close>

datatype event = Lock_acquired | Store_written json | Store_write_failed js_error | Lock_released

text \<open>
  The fields of a \<open>LuxDB\<close> instance, followed by what surrounds it: the content of the
  data file, the log file, for each coming \<open>writeFile\<close> call on the data file the code
  of the error it fails with (\<open>None\<close>, and an exhausted list, mean it succeeds), and
  whether a write that fails after the file was emptied has written some of its text by
  then (\<open>torn_writes\<close>).
  \<open>release_calls\<close> counts the calls of \<open>this.lock.release()\<close>; it is what a claim about the
  number of releases is stated on. \<open>trace\<close> lists the events of the direct mutating
  calls; it is what a claim about the order of their steps is stated on.

  A call that finds the lock held is suspended in \<open>acquire()\<close>; what it does when the lock
  is handed to it, or when its wait times out, is given by \<open>locked_section\<close> and
  \<open>acquire_timed_out\<close> below. The write lock of the file store, taken and returned inside
  every \<open>write\<close>, is left out.
\<close>

record LuxDB =
  data :: "jsval list"
  initialized :: bool
  filePath :: string
  lock :: Mutex
  wal :: "WAL option"
  config :: LuxDBConfig
  data_file :: "file_content option"
  wal_file :: wal_file
  write_faults :: "string option list"
  torn_writes :: bool
  release_calls :: nat
  trace :: "event list"

datatype 'a outcome = Returned 'a | Raised js_error | Suspended

definition LuxDB_new :: "string \<Rightarrow> LuxDBConfig \<Rightarrow> file_content option \<Rightarrow> wal_file \<Rightarrow> string option list \<Rightarrow> LuxDB" where
  "LuxDB_new path cfg dfile wfile faults =
     (let merged = mergeConfig cfg in
      \<lparr>data = [], initialized = False, filePath = path, lock = Mutex_new,
       wal = (if \<not> (enableWAL merged = Some True) then Some (WAL_new path) else None),
       config = merged, data_file = dfile, wal_file = wfile, write_faults = faults,
       torn_writes = False, release_calls = 0, trace = []\<rparr>)"

definition write_error :: "string \<Rightarrow> string \<Rightarrow> js_error" where
  "write_error path code =
     (if code = ''ENOENT'' then DatabaseError (''Directory does not exist for file: '' @ path) ''ENOENT''
      else if code = ''ENOSPC'' then DatabaseError (''No space left on device for file: '' @ path) ''ENOSPC''
      else if code = ''EACCES'' then DatabaseError (''Permission denied for file: '' @ path) ''EACCES''
      else DatabaseError (''Failed to write to file: '' @ path) ''WRITE_ERROR'')"

text \<open>
  \<open>writeFile\<close> opens the file for writing, which empties it, and then writes the text. It
  fails either in opening the file, with one of the codes below, and then the file is as
  it was; or later, and then the file holds the part of the text written so far, which
  may be none of it.
\<close>

definition fails_on_open :: "string \<Rightarrow> bool" where
  "fails_on_open code \<longleftrightarrow>
     code \<in> set [''ENOENT'', ''EACCES'', ''EPERM'', ''EISDIR'', ''EROFS'', ''ENOTDIR'',
                 ''EMFILE'', ''ENFILE'', ''ELOOP'', ''ENAMETOOLONG'']"

definition failed_write_leaves :: "bool \<Rightarrow> string \<Rightarrow> file_content option \<Rightarrow> file_content option" where
  "failed_write_leaves torn code old =
     (if fails_on_open code then old else if torn then Some Cut_off else Some Emptied)"

definition FileStore_write :: "jsval list \<Rightarrow> LuxDB \<Rightarrow> js_error option \<times> LuxDB" where
  "FileStore_write d s =
     (case write_faults s of
        [] \<Rightarrow> (None, s\<lparr>data_file := Some (Document (JSON_stringify (JArr d)))\<rparr>)
      | None # rest \<Rightarrow>
          (None, s\<lparr>data_file := Some (Document (JSON_stringify (JArr d))), write_faults := rest\<rparr>)
      | Some code # rest \<Rightarrow>
          (Some (write_error (filePath s) code),
           s\<lparr>data_file := failed_write_leaves (torn_writes s) code (data_file s),
             write_faults := rest\<rparr>))"

text \<open>
  \<open>read\<close>: an absent file and a file of white space are an empty table; a text that does
  not parse is an error.
\<close>

definition FileStore_read :: "LuxDB \<Rightarrow> js_error + jsval list" where
  "FileStore_read s =
     (case data_file s of
        None \<Rightarrow> Inr []
      | Some (Document j) \<Rightarrow> Inr (elements (JSON_parse j))
      | Some Emptied \<Rightarrow> Inr []
      | Some Cut_off \<Rightarrow>
          Inl (DatabaseError (''Failed to parse JSON in file: '' @ filePath s) ''PARSE_ERROR''))"

definition FileStore_initialize :: "LuxDB \<Rightarrow> js_error option \<times> LuxDB" where
  "FileStore_initialize s = (if data_file s = None then FileStore_write [] s else (None, s))"

definition persist :: "LuxDB \<Rightarrow> js_error option \<times> LuxDB" where
  "persist s = FileStore_write (data s) s"

definition lock_release :: "LuxDB \<Rightarrow> LuxDB" where
  "lock_release s =
     s\<lparr>lock := snd (Mutex_release (lock s)), release_calls := Suc (release_calls s)\<rparr>"

text \<open>\<open>p\<close> names the promise of the \<open>acquire()\<close> call, which is queued if the call suspends.\<close>

definition init :: "nat \<Rightarrow> LuxDB \<Rightarrow> unit outcome \<times> LuxDB" where
  "init p s =
     (if initialized s then (Returned (), s)
      else
        (case Mutex_acquire p (lock s) of
           (False, m) \<Rightarrow> (Suspended, s\<lparr>lock := m\<rparr>)
         | (True, m) \<Rightarrow>
             (case FileStore_initialize (s\<lparr>lock := m\<rparr>) of
                (Some e, s1) \<Rightarrow> (Raised e, lock_release s1)
              | (None, s1) \<Rightarrow>
                  (case FileStore_read s1 of
                     Inl e \<Rightarrow> (Raised e, lock_release s1)
                   | Inr d \<Rightarrow> (Returned (), lock_release (s1\<lparr>data := d, initialized := True\<rparr>))))))"

definition emit :: "event \<Rightarrow> LuxDB \<Rightarrow> LuxDB" where
  "emit e s = s\<lparr>trace := trace s @ [e]\<rparr>"

text \<open>
  A call from the moment it has the lock: \<open>try { body } finally { this.lock.release(); }\<close>.
  This is also how a call that was queued goes on when a \<open>release()\<close> hands it the lock.
\<close>

definition locked_section :: "(LuxDB \<Rightarrow> 'a outcome \<times> LuxDB) \<Rightarrow> LuxDB \<Rightarrow> 'a outcome \<times> LuxDB" where
  "locked_section body s =
     (case body (emit Lock_acquired s) of (r, s2) \<Rightarrow> (r, lock_release (emit Lock_released s2)))"

text \<open>
  The frame every mutating call shares:
  \<open>await this.init(); await this.lock.acquire(); try { body } finally { this.lock.release(); }\<close>
\<close>

definition with_lock :: "nat \<Rightarrow> (LuxDB \<Rightarrow> 'a outcome \<times> LuxDB) \<Rightarrow> LuxDB \<Rightarrow> 'a outcome \<times> LuxDB" where
  "with_lock p body s =
     (case init p s of
        (Raised e, s1) \<Rightarrow> (Raised e, s1)
      | (Suspended, s1) \<Rightarrow> (Suspended, s1)
      | (Returned u, s1) \<Rightarrow>
          (case Mutex_acquire p (lock s1) of
             (False, m) \<Rightarrow> (Suspended, s1\<lparr>lock := m\<rparr>)
           | (True, m) \<Rightarrow> locked_section body (s1\<lparr>lock := m\<rparr>)))"


text \<open>\<open>await this.persist(); return v\<close>\<close>

definition persist_then :: "jsval \<Rightarrow> LuxDB \<Rightarrow> jsval outcome \<times> LuxDB" where
  "persist_then v s =
     (case persist s of
        (Some e, s1) \<Rightarrow> (Raised e, emit (Store_write_failed e) s1)
      | (None, s1) \<Rightarrow> (Returned v, emit (Store_written (JSON_stringify (JArr (data s)))) s1))"

text \<open>
  The bodies of the six calls. In the queries \<open>matches item\<close> stands for
  \<open>matchers.every((matcher) => matchDataKeyValue(item, matcher))\<close>.
\<close>

text \<open>\<open>this.data.push(...itemsArray)\<close>, the step of \<open>insert\<close> before its first \<open>await\<close>.\<close>

definition insert_push :: "jsval \<Rightarrow> LuxDB \<Rightarrow> LuxDB" where
  "insert_push items s =
     (let itemsArray = (case items of JArr xs \<Rightarrow> xs | _ \<Rightarrow> [items])
      in s\<lparr>data := data s @ itemsArray\<rparr>)"

definition insert_body :: "jsval \<Rightarrow> LuxDB \<Rightarrow> jsval outcome \<times> LuxDB" where
  "insert_body items s = persist_then items (insert_push items s)"






definition LuxDB_insert :: "nat \<Rightarrow> jsval \<Rightarrow> LuxDB \<Rightarrow> jsval outcome \<times> LuxDB" where
  "LuxDB_insert p items = with_lock p (insert_body items)"








section \<open>Transactions (lib/Transaction.ts)\<close>

text \<open>
  A transaction is modelled with the four closures \<open>beginTransaction\<close> gives it:
  \<open>getData\<close> returns the live array \<open>this.data\<close> itself (so \<open>push\<close> and an indexed
  assignment on its result change the table), \<open>setData\<close> assigns \<open>this.data\<close>, \<open>persist\<close>
  writes the table to the file store and \<open>releaseLock\<close> is \<open>this.lock.release()\<close>.

  A staged closure is one of three forms. A predicate is caller code and may throw.
\<close>

datatype operation =
    InsertOp "jsval list"
  | UpdateOp "jsval \<Rightarrow> js_error + bool" jsval
  | DeleteOp "jsval \<Rightarrow> js_error + bool"

record Transaction =
  snapshot :: json
  operations :: "operation list"
  committed :: bool
  rolledBack :: bool

definition Transaction_new :: "LuxDB \<Rightarrow> Transaction" where
  "Transaction_new s =
     \<lparr>snapshot = JSON_stringify (JArr (data s)), operations = [],
      committed = False, rolledBack = False\<rparr>"

definition beginTransaction :: "nat \<Rightarrow> LuxDB \<Rightarrow> Transaction outcome \<times> LuxDB" where
  "beginTransaction p s =
     (case init p s of
        (Raised e, s1) \<Rightarrow> (Raised e, s1)
      | (Suspended, s1) \<Rightarrow> (Suspended, s1)
      | (Returned u, s1) \<Rightarrow>
          (case Mutex_acquire p (lock s1) of
             (False, m) \<Rightarrow> (Suspended, s1\<lparr>lock := m\<rparr>)
           | (True, m) \<Rightarrow> (Returned (Transaction_new (s1\<lparr>lock := m\<rparr>)), s1\<lparr>lock := m\<rparr>)))"

definition ensureNotFinalized :: "Transaction \<Rightarrow> js_error option" where
  "ensureNotFinalized tx =
     (if committed tx then Some (TransactionError ''Transaction already committed'' None)
      else if rolledBack tx then Some (TransactionError ''Transaction already rolled back'' None)
      else None)"

definition isFinalized :: "Transaction \<Rightarrow> bool" where
  "isFinalized tx = (committed tx \<or> rolledBack tx)"

definition getOperationCount :: "Transaction \<Rightarrow> nat" where
  "getOperationCount tx = length (operations tx)"

definition stage :: "operation \<Rightarrow> Transaction \<Rightarrow> js_error + Transaction" where
  "stage operation tx =
     (case ensureNotFinalized tx of
        Some e \<Rightarrow> Inl e
      | None \<Rightarrow> Inr (tx\<lparr>operations := operations tx @ [operation]\<rparr>))"

definition Transaction_insert :: "jsval \<Rightarrow> Transaction \<Rightarrow> js_error + Transaction" where
  "Transaction_insert item = stage (InsertOp (case item of JArr xs \<Rightarrow> xs | _ \<Rightarrow> [item]))"

definition Transaction_update :: "(jsval \<Rightarrow> js_error + bool) \<Rightarrow> jsval \<Rightarrow> Transaction \<Rightarrow> js_error + Transaction" where
  "Transaction_update predicate updates = stage (UpdateOp predicate updates)"

definition Transaction_delete :: "(jsval \<Rightarrow> js_error + bool) \<Rightarrow> Transaction \<Rightarrow> js_error + Transaction" where
  "Transaction_delete predicate = stage (DeleteOp predicate)"

text \<open>
  The loop of the staged update, from index \<open>i\<close> on. A predicate that throws ends it, and
  the records already replaced stay replaced.
\<close>

function update_loop :: "(jsval \<Rightarrow> js_error + bool) \<Rightarrow> jsval \<Rightarrow> nat \<Rightarrow> jsval list \<Rightarrow> js_error option \<times> jsval list" where
  "update_loop predicate updates i d =
     (if i < length d then
        (case predicate (d ! i) of
           Inl e \<Rightarrow> (Some e, d)
         | Inr b \<Rightarrow>
             update_loop predicate updates (Suc i)
               (if b then d[i := object_spread (d ! i) updates] else d))
      else (None, d))"
  by pat_completeness auto
termination
  by (relation "measure (\<lambda>(predicate, updates, i, d). length d - i)") auto

declare update_loop.simps [simp del]

text \<open>\<open>data.filter(keep)\<close> with a callback that may throw.\<close>

fun filter_js :: "('a \<Rightarrow> js_error + bool) \<Rightarrow> 'a list \<Rightarrow> js_error + 'a list" where
  "filter_js keep [] = Inr []"
| "filter_js keep (x # xs) =
     (case keep x of
        Inl e \<Rightarrow> Inl e
      | Inr b \<Rightarrow>
          (case filter_js keep xs of
             Inl e \<Rightarrow> Inl e
           | Inr ys \<Rightarrow> Inr (if b then x # ys else ys)))"

fun run_operation :: "operation \<Rightarrow> LuxDB \<Rightarrow> js_error option \<times> LuxDB" where
  "run_operation (InsertOp items) s = (None, s\<lparr>data := data s @ items\<rparr>)"
| "run_operation (UpdateOp predicate updates) s =
     (case update_loop predicate updates 0 (data s) of (r, d) \<Rightarrow> (r, s\<lparr>data := d\<rparr>))"
| "run_operation (DeleteOp predicate) s =
     (case filter_js (\<lambda>item. map_sum id Not (predicate item)) (data s) of
        Inl e \<Rightarrow> (Some e, s)
      | Inr filtered \<Rightarrow> (None, s\<lparr>data := filtered\<rparr>))"

text \<open>\<open>for (const operation of this.operations) operation();\<close>\<close>

fun run_operations :: "operation list \<Rightarrow> LuxDB \<Rightarrow> js_error option \<times> LuxDB" where
  "run_operations [] s = (None, s)"
| "run_operations (operation # rest) s =
     (case run_operation operation s of
        (Some e, s1) \<Rightarrow> (Some e, s1)
      | (None, s1) \<Rightarrow> run_operations rest s1)"

definition rollback :: "Transaction \<Rightarrow> LuxDB \<Rightarrow> Transaction \<times> LuxDB" where
  "rollback tx s =
     (if rolledBack tx then (tx, s)
      else
        (let originalData = JSON_parse (snapshot tx)
         in (tx\<lparr>rolledBack := True, operations := []\<rparr>,
             lock_release (s\<lparr>data := elements originalData\<rparr>))))"

text \<open>The \<open>catch\<close> block of \<open>commit\<close>.\<close>

definition commit_failed :: "js_error \<Rightarrow> Transaction \<Rightarrow> LuxDB \<Rightarrow> js_error option \<times> Transaction \<times> LuxDB" where
  "commit_failed error tx s =
     (case rollback tx s of
        (tx1, s1) \<Rightarrow>
          (Some (TransactionError (''Transaction commit failed: '' @ message error) (Some error)),
           tx1, s1))"

text \<open>
  \<open>commit()\<close>: the error it throws, if any, the transaction and the database after it.
  The \<open>finally\<close> block runs after the \<open>try\<close> and, on an error, after the \<open>catch\<close>.
\<close>

definition commit :: "Transaction \<Rightarrow> LuxDB \<Rightarrow> js_error option \<times> Transaction \<times> LuxDB" where
  "commit tx s =
     (case ensureNotFinalized tx of
        Some e \<Rightarrow> (Some e, tx, s)
      | None \<Rightarrow>
          (case (case run_operations (operations tx) s of
                   (Some error, s1) \<Rightarrow> commit_failed error tx s1
                 | (None, s1) \<Rightarrow>
                     (case persist s1 of
                        (Some error, s2) \<Rightarrow> commit_failed error tx s2
                      | (None, s2) \<Rightarrow> (None, tx\<lparr>committed := True\<rparr>, s2)))
           of (r, tx1, s3) \<Rightarrow> (r, tx1, lock_release s3)))"

section \<open>The steps of \<open>commit()\<close> among the continuations of other calls\<close>

text \<open>
  \<open>commit\<close> above runs \<open>commit()\<close> from its call to its end. Between the two the function
  is suspended at each \<open>await\<close>, and what follows an \<open>await\<close> runs as a job of the microtask
  queue, as does the continuation of every other call whose promise was settled; the
  jobs run one at a time, in the order in which they were queued. To say what the table
  is at the moment the caller of \<open>commit()\<close> gets its result, \<open>commit()\<close> is given here step
  by step, next to calls of \<open>insert\<close> that wait for the lock.

  The jobs:

  \<^item> \<open>Commit_after_persist r\<close>: \<open>commit()\<close> goes on after \<open>await this.persist()\<close>, which
    returned (\<open>None\<close>) or threw;
  \<^item> \<open>Commit_after_rollback error\<close>: \<open>commit()\<close> goes on, in its \<open>catch\<close> block, after
    \<open>await this.rollback()\<close>;
  \<^item> \<open>Caller_after_commit r\<close>: the caller goes on after \<open>await tx.commit()\<close>, which returned
    or threw;
  \<^item> \<open>Acquire_settles p\<close>: the promise \<open>p\<close> made inside \<open>acquire()\<close> was resolved, and now the
    promise that the async function \<open>acquire()\<close> returned, which follows \<open>p\<close>, is resolved;
  \<^item> \<open>Insert_after_acquire p\<close>: the call of \<open>insert\<close> that waited on \<open>p\<close> goes on after
    \<open>await this.lock.acquire()\<close>.
\<close>

datatype job =
    Commit_after_persist "js_error option"
  | Commit_after_rollback js_error
  | Caller_after_commit "js_error option"
  | Acquire_settles nat
  | Insert_after_acquire nat

text \<open>
  The database, the transaction being committed, the microtask queue, the calls of
  \<open>insert\<close> suspended in \<open>acquire()\<close> (the promise and the argument of each), those suspended
  in \<open>await this.persist()\<close>, and what the caller of \<open>commit()\<close> got: the error, if any, and
  the table at that moment.
\<close>

record loop =
  database :: LuxDB
  transaction :: Transaction
  microtasks :: "job list"
  acquiring :: "(nat \<times> jsval) list"
  persisting :: "nat list"
  surfaced :: "(js_error option \<times> jsval list) option"

text \<open>
  \<open>this.lock.release()\<close>: the function taken from the queue is called, and it resolves
  the promise of its \<open>acquire()\<close> call, which queues the job of that promise.
\<close>

definition woken :: "callback option \<Rightarrow> job list" where
  "woken next = (case next of None \<Rightarrow> [] | Some (Resolve p) \<Rightarrow> [Acquire_settles p]
                 | Some (Waiter p) \<Rightarrow> [Acquire_settles p])"

definition release_waking :: "loop \<Rightarrow> loop" where
  "release_waking l =
     l\<lparr>database := lock_release (database l),
       microtasks := microtasks l @ woken (fst (Mutex_release (lock (database l))))\<rparr>"

text \<open>\<open>rollback()\<close>; it has no \<open>await\<close> and runs to its end within the step that calls it.\<close>

definition rollback_waking :: "loop \<Rightarrow> loop" where
  "rollback_waking l =
     (if rolledBack (transaction l) then l
      else
        (let originalData = JSON_parse (snapshot (transaction l))
         in release_waking
              (l\<lparr>database := (database l)\<lparr>data := elements originalData\<rparr>,
                 transaction := (transaction l)\<lparr>rolledBack := True, operations := []\<rparr>\<rparr>)))"

text \<open>
  The \<open>catch\<close> block up to its \<open>await\<close>: \<open>rollback()\<close> has returned a promise that is
  resolved already, so the job that goes on after it is queued at once, behind what
  \<open>rollback()\<close> has queued.
\<close>

definition commit_catches :: "js_error \<Rightarrow> loop \<Rightarrow> loop" where
  "commit_catches error l =
     (let l1 = rollback_waking l
      in l1\<lparr>microtasks := microtasks l1 @ [Commit_after_rollback error]\<rparr>)"

text \<open>
  The call of \<open>commit()\<close> up to its first \<open>await\<close>. The write of \<open>persist\<close> is accounted for
  here, and the job that goes on after it is queued; the calls in \<open>acquiring\<close> do nothing
  until the lock is released.
\<close>

definition commit_starts :: "loop \<Rightarrow> loop" where
  "commit_starts l =
     (case ensureNotFinalized (transaction l) of
        Some e \<Rightarrow> l\<lparr>microtasks := microtasks l @ [Caller_after_commit (Some e)]\<rparr>
      | None \<Rightarrow>
          (case run_operations (operations (transaction l)) (database l) of
             (Some error, s1) \<Rightarrow> commit_catches error (l\<lparr>database := s1\<rparr>)
           | (None, s1) \<Rightarrow>
               (case persist s1 of
                  (r, s2) \<Rightarrow> l\<lparr>database := s2, microtasks := microtasks l @ [Commit_after_persist r]\<rparr>)))"

text \<open>
  One job. \<open>commit()\<close> ends with its \<open>finally\<close> block, and the settling of its promise
  queues the continuation of its caller. A call of \<open>insert\<close> that got the lock enters its
  \<open>try\<close> block, pushes its items and is suspended again in \<open>await this.persist()\<close>.
\<close>

fun run_job :: "job \<Rightarrow> loop \<Rightarrow> loop" where
  "run_job (Commit_after_persist None) l =
     (let l1 = release_waking (l\<lparr>transaction := (transaction l)\<lparr>committed := True\<rparr>\<rparr>)
      in l1\<lparr>microtasks := microtasks l1 @ [Caller_after_commit None]\<rparr>)"
| "run_job (Commit_after_persist (Some error)) l = commit_catches error l"
| "run_job (Commit_after_rollback error) l =
     (let l1 = release_waking l
      in l1\<lparr>microtasks := microtasks l1 @
            [Caller_after_commit
               (Some (TransactionError (''Transaction commit failed: '' @ message error)
                        (Some error)))]\<rparr>)"
| "run_job (Caller_after_commit r) l = l\<lparr>surfaced := Some (r, data (database l))\<rparr>"
| "run_job (Acquire_settles p) l =
     (case map_of (acquiring l) p of
        None \<Rightarrow> l
      | Some items \<Rightarrow> l\<lparr>microtasks := microtasks l @ [Insert_after_acquire p]\<rparr>)"
| "run_job (Insert_after_acquire p) l =
     (case map_of (acquiring l) p of
        None \<Rightarrow> l
      | Some items \<Rightarrow>
          l\<lparr>database := insert_push items (emit Lock_acquired (database l)),
            acquiring := filter (\<lambda>c. fst c \<noteq> p) (acquiring l),
            persisting := persisting l @ [p]\<rparr>)"

text \<open>The first \<open>n\<close> jobs of the queue, or all of them if they are fewer.\<close>

fun run_jobs :: "nat \<Rightarrow> loop \<Rightarrow> loop" where
  "run_jobs 0 l = l"
| "run_jobs (Suc n) l =
     (case microtasks l of
        [] \<Rightarrow> l
      | j # rest \<Rightarrow> run_jobs n (run_job j (l\<lparr>microtasks := rest\<rparr>)))"

section \<open>Notions used in the proofs\<close>

text \<open>Two states of the database that differ in the table at most.\<close>

definition same_but_data :: "LuxDB \<Rightarrow> LuxDB \<Rightarrow> bool" where
  "same_but_data s s1 \<longleftrightarrow>
     initialized s1 = initialized s \<and> filePath s1 = filePath s \<and> lock s1 = lock s \<and>
     wal s1 = wal s \<and> config s1 = config s \<and> data_file s1 = data_file s \<and>
     wal_file s1 = wal_file s \<and> write_faults s1 = write_faults s \<and>
     torn_writes s1 = torn_writes s \<and> release_calls s1 = release_calls s \<and>
     trace s1 = trace s"



text \<open>The state of the loop of \<open>replay\<close> after the entries \<open>es\<close>.\<close>

definition replay_inv :: "LogEntry list \<Rightarrow> LogEntry list \<times> txmap \<Rightarrow> bool" where
  "replay_inv es st \<longleftrightarrow>
     fst st = non_transactional es \<and> distinct (map fst (snd st)) \<and>
     (\<forall>t. case map_of (snd st) t of
             None \<Rightarrow> t \<noteq> [] \<longrightarrow> since_last_marker t es = []
           | Some ops \<Rightarrow> t \<noteq> [] \<and> ops = since_last_marker t es)"

section \<open>Scenarios\<close>

text \<open>A Mutex held by the caller whose \<open>acquire()\<close> promise \<open>0\<close> was granted, nobody waiting.\<close>

definition rt_held :: runtime where
  "rt_held = \<lparr>mutex = \<lparr>locked = True, queue = [], timeout = 5000\<rparr>,
              promises = Map.empty(0 \<mapsto> Fulfilled), timers = []\<rparr>"

text \<open>
  A database created on a data file that holds one record, then a transaction begun on
  it; \<open>faults\<close> are the outcomes of the coming writes. \<open>tx_update\<close> has staged the update
  of the record with id 1 to inactive, \<open>tx_throwing\<close> an update whose predicate throws.
\<close>

definition cfg_users :: LuxDBConfig where
  "cfg_users = \<lparr>fileName = ''users'', destination = None, enableWAL = None,
                 walCheckpointThreshold = None, lockTimeout = None, autoId = None,
                 prettyPrint = None, validate = None\<rparr>"

definition rec_active :: jsval where
  "rec_active = JObj [(''id'', JNum 1), (''status'', JStr ''active'')]"

definition rec_inactive :: jsval where
  "rec_inactive = JObj [(''id'', JNum 1), (''status'', JStr ''inactive'')]"

definition db_created :: "string option list \<Rightarrow> LuxDB" where
  "db_created faults =
     snd (init 0 (LuxDB_new ''db/users.json'' cfg_users
                    (Some (Document (JSON_stringify (JArr [rec_active])))) None faults))"

definition db_begun :: "string option list \<Rightarrow> LuxDB" where
  "db_begun faults = snd (beginTransaction 1 (db_created faults))"

definition tx_begun :: Transaction where
  "tx_begun = Transaction_new (db_begun [])"

definition has_id1 :: "jsval \<Rightarrow> bool" where
  "has_id1 r = (get_prop r ''id'' = Some (JNum 1))"

definition tx_update :: Transaction where
  "tx_update =
     tx_begun\<lparr>operations := [UpdateOp (\<lambda>r. Inr (has_id1 r)) (JObj [(''status'', JStr ''inactive'')])]\<rparr>"

definition tx_throwing :: Transaction where
  "tx_throwing = tx_begun\<lparr>operations := [UpdateOp (\<lambda>r. Inl (Error ''boom'')) (JObj [])]\<rparr>"

text \<open>
  The same transaction about to be committed while the write of the data file will fail
  for lack of space: alone, and with a call \<open>insert(rec_inactive)\<close> made in the meantime,
  which found the lock held and waits for it on promise 5.
\<close>

definition commit_alone :: loop where
  "commit_alone =
     \<lparr>database = db_begun [Some ''ENOSPC''], transaction = tx_update, microtasks = [],
      acquiring = [], persisting = [], surfaced = None\<rparr>"

definition commit_contended_by_insert :: loop where
  "commit_contended_by_insert =
     \<lparr>database = snd (LuxDB_insert 5 rec_inactive (db_begun [Some ''ENOSPC''])),
      transaction = tx_update, microtasks = [],
      acquiring = [(5, rec_inactive)], persisting = [], surfaced = None\<rparr>"

text \<open>
  A configuration that turns the log off and asks for a checkpoint every 5 entries, and
  a log of five inserts made outside any transaction.
\<close>

definition cfg_small :: LuxDBConfig where
  "cfg_small = cfg_users\<lparr>enableWAL := Some False, walCheckpointThreshold := Some 5\<rparr>"

definition five_inserts :: "LogEntry list" where
  "five_inserts = map (\<lambda>n. op_entry n INSERT rec_active None) [1, 2, 3, 4, 5]"

text \<open>
  A log in which transaction \<open>t1\<close> begins, commits and logs an insert afterwards, and one in
  which it logs an insert, begins and logs another.
\<close>

definition log_after_commit :: "LogEntry list" where
  "log_after_commit =
     [marker_entry 1 BEGIN ''t1'', marker_entry 2 COMMIT ''t1'',
      op_entry 3 INSERT rec_active (Some ''t1'')]"

definition log_begin_late :: "LogEntry list" where
  "log_begin_late =
     [op_entry 1 INSERT rec_active (Some ''t1''), marker_entry 2 BEGIN ''t1'',
      op_entry 3 INSERT rec_inactive (Some ''t1'')]"

section \<open>Properties of the Mutex\<close>

lemma Mutex_acquire_held:
  "locked m \<Longrightarrow> Mutex_acquire p m = (False, m\<lparr>queue := queue m @ [Waiter p]\<rparr>)"
  by (simp add: Mutex_acquire_def)

lemma acquire_held:
  assumes "locked (mutex rt)"
  shows "locked (mutex (acquire p rt))"
    and "queue (mutex (acquire p rt)) = queue (mutex rt) @ [Waiter p]"
    and "promises (acquire p rt) = (promises rt)(p \<mapsto> Pending)"
  using assms by (simp_all add: acquire_def Mutex_acquire_held)

lemma acquires_held:
  "locked (mutex rt) \<Longrightarrow>
     locked (mutex (acquires ps rt)) \<and>
     queue (mutex (acquires ps rt)) = queue (mutex rt) @ map Waiter ps"
  by (induction ps arbitrary: rt) (simp_all add: acquire_held)

lemma acquires_other:
  "locked (mutex rt) \<Longrightarrow> p \<notin> set ps \<Longrightarrow> promises (acquires ps rt) p = promises rt p"
  by (induction ps arbitrary: rt) (simp_all add: acquire_held)

lemma acquires_pending:
  "locked (mutex rt) \<Longrightarrow> distinct ps \<Longrightarrow> p \<in> set ps \<Longrightarrow>
     promises (acquires ps rt) p = Some Pending"
proof (induction ps arbitrary: rt)
  case Nil
  then show ?case by simp
next
  case (Cons a ps)
  show ?case
  proof (cases "p \<in> set ps")
    case True
    with Cons show ?thesis by (simp add: acquire_held)
  next
    case False
    with Cons.prems have pa: "a = p" by simp
    have "promises (acquires ps (acquire p rt)) p = promises (acquire p rt) p"
      using Cons.prems(1) False by (intro acquires_other) (simp_all add: acquire_held)
    with Cons.prems(1) pa show ?thesis
      by (simp add: acquire_held)
  qed
qed

lemma release_nonempty:
  assumes "queue (mutex rt) = c # cs"
  shows "fst (Mutex_release (mutex rt)) = Some c"
    and "queue (mutex (release rt)) = cs"
    and "locked (mutex (release rt)) = locked (mutex rt)"
    and "release rt = call c (rt\<lparr>mutex := (mutex rt)\<lparr>queue := cs\<rparr>\<rparr>)"
  using assms
  by (cases c; simp add: release_def Mutex_release_def resolve_def clearTimeout_def)+

text \<open>Releasing while only waiters are queued: each in turn, the lock never free.\<close>

lemma releases_waiters:
  "locked (mutex rt) \<Longrightarrow> queue (mutex rt) = map Waiter ps \<Longrightarrow> distinct ps \<Longrightarrow>
   (\<forall>p\<in>set ps. promises rt p = Some Pending) \<Longrightarrow> n \<le> length ps \<Longrightarrow>
     released n rt = map (\<lambda>p. Some (Waiter p)) (take n ps) \<and>
     locked (mutex (releases n rt)) \<and>
     queue (mutex (releases n rt)) = map Waiter (drop n ps) \<and>
     (\<forall>p\<in>set (drop n ps). promises (releases n rt) p = Some Pending) \<and>
     (\<forall>p\<in>set (take n ps). promises (releases n rt) p = Some Fulfilled) \<and>
     (\<forall>p. p \<notin> set ps \<longrightarrow> promises (releases n rt) p = promises rt p)"
proof (induction n arbitrary: rt ps)
  case 0
  then show ?case by simp
next
  case (Suc n)
  then obtain q qs where ps: "ps = q # qs" by (cases ps) auto
  let ?rt = "release rt"
  have qu: "queue (mutex rt) = Waiter q # map Waiter qs"
    using Suc.prems(2) ps by simp
  have r1: "fst (Mutex_release (mutex rt)) = Some (Waiter q)"
    and r2: "queue (mutex ?rt) = map Waiter qs"
    and r3: "locked (mutex ?rt)"
    and r4: "?rt = call (Waiter q) (rt\<lparr>mutex := (mutex rt)\<lparr>queue := map Waiter qs\<rparr>\<rparr>)"
    using release_nonempty [OF qu] Suc.prems(1) by simp_all
  have pq: "promises ?rt q = Some Fulfilled"
    using Suc.prems(4) ps by (simp add: r4 resolve_def clearTimeout_def)
  have other: "\<And>p. p \<noteq> q \<Longrightarrow> promises ?rt p = promises rt p"
    by (simp add: r4 resolve_def clearTimeout_def)
  have qs_pending: "\<forall>p\<in>set qs. promises ?rt p = Some Pending"
  proof
    fix p assume "p \<in> set qs"
    with Suc.prems(3,4) ps have "p \<noteq> q" "promises rt p = Some Pending" by auto
    with other show "promises ?rt p = Some Pending" by simp
  qed
  have dq: "distinct qs" and nq: "n \<le> length qs" and qn: "q \<notin> set qs"
    using Suc.prems(3,5) ps by simp_all
  note IH = Suc.IH [OF r3 r2 dq qs_pending nq]
  have keep_q: "promises (releases n ?rt) q = Some Fulfilled"
    using IH qn pq by simp
  show ?case
    using IH r1 keep_q other ps qn by auto
qed

lemma releases_queue:
  "n \<le> length (queue (mutex rt)) \<Longrightarrow>
     released n rt = map Some (take n (queue (mutex rt))) \<and>
     locked (mutex (releases n rt)) = locked (mutex rt) \<and>
     queue (mutex (releases n rt)) = drop n (queue (mutex rt))"
proof (induction n arbitrary: rt)
  case 0
  then show ?case by simp
next
  case (Suc n)
  then obtain c cs where qu: "queue (mutex rt) = c # cs" by (cases "queue (mutex rt)") auto
  note r = release_nonempty [OF qu]
  from Suc.prems qu r(2) have "n \<le> length (queue (mutex (release rt)))" by simp
  from Suc.IH [OF this] show ?case by (simp add: r(1,2,3) qu)
qed

text \<open>
  C5. While the Mutex is held, the callers \<open>ps\<close> call \<open>acquire()\<close> in this order. They are
  queued behind the waiters already there, in the order of their calls. The following
  \<open>release()\<close> calls invoke the queued waiters in exactly that order, one for each call;
  after each of them the lock is still marked held and the queue has lost its head only:
  the lock goes from the releasing holder to the head waiter without being free in
  between. With nobody queued before them, the first \<open>n\<close> callers have their promise
  fulfilled after \<open>n\<close> releases and the others are still pending.
\<close>

theorem Mutex_fifo_handoff:
  assumes held: "locked (mutex rt)"
    and dist: "distinct ps"
    and n: "n \<le> length (queue (mutex rt) @ map Waiter ps)"
  shows "queue (mutex (acquires ps rt)) = queue (mutex rt) @ map Waiter ps \<and>
         released n (acquires ps rt) = map Some (take n (queue (mutex rt) @ map Waiter ps)) \<and>
         locked (mutex (releases n (acquires ps rt))) \<and>
         queue (mutex (releases n (acquires ps rt))) = drop n (queue (mutex rt) @ map Waiter ps) \<and>
         (queue (mutex rt) = [] \<longrightarrow>
            (\<forall>p\<in>set (take n ps). promises (releases n (acquires ps rt)) p = Some Fulfilled) \<and>
            (\<forall>p\<in>set (drop n ps). promises (releases n (acquires ps rt)) p = Some Pending))"
proof -
  let ?rt = "acquires ps rt"
  have a: "locked (mutex ?rt)" "queue (mutex ?rt) = queue (mutex rt) @ map Waiter ps"
    using acquires_held [OF held, of ps] by simp_all
  have n': "n \<le> length (queue (mutex ?rt))" using n a(2) by simp
  note q = releases_queue [OF n']
  have w: "(\<forall>p\<in>set (take n ps). promises (releases n ?rt) p = Some Fulfilled) \<and>
           (\<forall>p\<in>set (drop n ps). promises (releases n ?rt) p = Some Pending)"
    if e: "queue (mutex rt) = []"
  proof -
    have 1: "queue (mutex ?rt) = map Waiter ps" using a(2) e by simp
    have 2: "\<forall>p\<in>set ps. promises ?rt p = Some Pending"
      using acquires_pending [OF held dist] by simp
    have 3: "n \<le> length ps" using n e by simp
    from releases_waiters [OF a(1) 1 dist 2 3] show ?thesis by simp
  qed
  from a q w show ?thesis by simp
qed

theorem Mutex_fifo_handoff_witness:
  "locked (mutex rt_held) \<and> distinct [1, 2, 3 :: nat] \<and>
   Suc (Suc 0) \<le> length (queue (mutex rt_held) @ map Waiter [1, 2, 3]) \<and>
   queue (mutex (acquires [1, 2, 3] rt_held)) = [Waiter 1, Waiter 2, Waiter 3] \<and>
   released (Suc (Suc 0)) (acquires [1, 2, 3] rt_held) = [Some (Waiter 1), Some (Waiter 2)] \<and>
   locked (mutex (releases (Suc (Suc 0)) (acquires [1, 2, 3] rt_held))) \<and>
   queue (mutex (releases (Suc (Suc 0)) (acquires [1, 2, 3] rt_held))) = [Waiter 3] \<and>
   promises (releases (Suc (Suc 0)) (acquires [1, 2, 3] rt_held)) 1 = Some Fulfilled \<and>
   promises (releases (Suc (Suc 0)) (acquires [1, 2, 3] rt_held)) 2 = Some Fulfilled \<and>
   promises (releases (Suc (Suc 0)) (acquires [1, 2, 3] rt_held)) 3 = Some Pending"
proof -
  have h1: "locked (mutex rt_held)" by (simp add: rt_held_def)
  have h2: "distinct [1, 2, 3 :: nat]" by simp
  have h3: "Suc (Suc 0) \<le> length (queue (mutex rt_held) @ map Waiter [1, 2, 3])" by simp
  have e: "queue (mutex rt_held) = []" by (simp add: rt_held_def)
  from Mutex_fifo_handoff [OF h1 h2 h3] e h1 h2 h3 show ?thesis by simp
qed

text \<open>
  The timer callback looks for \<open>resolve\<close> in a queue that holds only the closures pushed
  by \<open>acquire()\<close>, so it finds nothing to remove.
\<close>

lemma on_timeout_keeps_queue:
  "\<forall>c\<in>set (queue m). \<exists>q. c = Waiter q \<Longrightarrow> Mutex_on_timeout p m = m"
proof -
  have "\<forall>c\<in>set cs. \<exists>q. c = Waiter q \<Longrightarrow> findIndex (\<lambda>y. y = Resolve p) cs = - 1" for cs
    by (induction cs) auto
  then show "\<forall>c\<in>set (queue m). \<exists>q. c = Waiter q \<Longrightarrow> Mutex_on_timeout p m = m"
    by (simp add: Mutex_on_timeout_def indexOf_def)
qed

text \<open>
  C7. The Mutex is held; caller 1 calls \<open>acquire()\<close>, is queued and times out: its promise
  is rejected with the \<open>LockError\<close>, and its entry is still in the queue. Caller 2 queues
  behind it. The holder's \<open>release()\<close> then invokes the entry of caller 1, which has
  given up: the lock stays marked held with no holder, and caller 2 is still pending.
\<close>

theorem timed_out_waiter_stays_queued:
  "queue (mutex (fire_timer 1 (acquire 1 rt_held))) = [Waiter 1] \<and>
   promises (fire_timer 1 (acquire 1 rt_held)) 1 = Some (Rejected (LockError ''Lock acquisition timeout'')) \<and>
   queue (mutex (acquire 2 (fire_timer 1 (acquire 1 rt_held)))) = [Waiter 1, Waiter 2] \<and>
   fst (Mutex_release (mutex (acquire 2 (fire_timer 1 (acquire 1 rt_held))))) = Some (Waiter 1) \<and>
   locked (mutex (release (acquire 2 (fire_timer 1 (acquire 1 rt_held))))) \<and>
   promises (release (acquire 2 (fire_timer 1 (acquire 1 rt_held)))) 1 = Some (Rejected (LockError ''Lock acquisition timeout'')) \<and>
   promises (release (acquire 2 (fire_timer 1 (acquire 1 rt_held)))) 2 = Some Pending"
  by (simp add: rt_held_def acquire_def Mutex_acquire_def fire_timer_def Mutex_on_timeout_def
      indexOf_def reject_def release_def Mutex_release_def resolve_def clearTimeout_def)

section \<open>Properties of the JSON encoding\<close>

lemma stringify_parse: "JSON_stringify (JSON_parse j) = j"
proof (induction j)
  case (TArr xs)
  then show ?case by (simp add: map_idI)
next
  case (TObj kvs)
  have nu: "JSON_parse x \<noteq> JUndefined" for x by (cases x) simp_all
  have "filter (\<lambda>kv. snd kv \<noteq> JUndefined) (map (\<lambda>kv. (fst kv, JSON_parse (snd kv))) kvs)
        = map (\<lambda>kv. (fst kv, JSON_parse (snd kv))) kvs"
    by (simp add: filter_id_conv nu)
  moreover have "map (\<lambda>kv. (fst kv, JSON_stringify (JSON_parse (snd kv)))) kvs = kvs"
  proof (rule map_idI)
    fix kv assume "kv \<in> set kvs"
    then have "JSON_stringify (JSON_parse (snd kv)) = snd kv"
      by (rule TObj.IH) (rule snds.intros)
    then show "(fst kv, JSON_stringify (JSON_parse (snd kv))) = kv" by simp
  qed
  ultimately show ?case by (simp add: comp_def)
qed simp_all

lemma parse_stringify_clean: "json_clean v \<Longrightarrow> JSON_parse (JSON_stringify v) = v"
proof (induction v)
  case (JArr xs)
  then show ?case by (simp add: list_all_iff map_idI)
next
  case (JObj kvs)
  have nu: "\<forall>kv\<in>set kvs. snd kv \<noteq> JUndefined"
    using JObj.prems by (auto simp: list_all_iff)
  then have f: "filter (\<lambda>kv. snd kv \<noteq> JUndefined) kvs = kvs"
    by (simp add: filter_id_conv)
  have "map (\<lambda>kv. (fst kv, JSON_parse (JSON_stringify (snd kv)))) kvs = kvs"
  proof (rule map_idI)
    fix kv assume m: "kv \<in> set kvs"
    then have "json_clean (snd kv)" using JObj.prems by (simp add: list_all_iff)
    with m have "JSON_parse (JSON_stringify (snd kv)) = snd kv"
      using JObj.IH [OF m snds.intros] by simp
    then show "(fst kv, JSON_parse (JSON_stringify (snd kv))) = kv" by simp
  qed
  with f show ?case by (simp add: comp_def)
qed simp_all

lemma restore_stringify:
  "JSON_stringify (JArr (elements (JSON_parse (JSON_stringify (JArr d))))) = JSON_stringify (JArr d)"
  by (simp add: stringify_parse)

lemma restore_clean:
  "list_all json_clean d \<Longrightarrow> elements (JSON_parse (JSON_stringify (JArr d))) = d"
  using parse_stringify_clean [of "JArr d"] by simp

section \<open>Properties of transactions\<close>

lemma run_operation_frame: "run_operation operation s = (r, s1) \<Longrightarrow> same_but_data s s1"
  by (cases operation) (auto simp: same_but_data_def split: prod.splits sum.splits)

lemma run_operations_frame: "run_operations ops s = (r, s1) \<Longrightarrow> same_but_data s s1"
proof (induction ops arbitrary: s)
  case Nil
  then show ?case by (simp add: same_but_data_def)
next
  case (Cons operation rest)
  obtain r0 s0 where o: "run_operation operation s = (r0, s0)" by (cases "run_operation operation s")
  note f = run_operation_frame [OF o]
  show ?case
  proof (cases r0)
    case None
    with Cons.prems o have "run_operations rest s0 = (r, s1)" by simp
    from Cons.IH [OF this] f show ?thesis by (simp add: same_but_data_def)
  next
    case (Some e)
    with Cons.prems o f show ?thesis by simp
  qed
qed

lemma persist_ok:
  "persist s = (None, s1) \<Longrightarrow>
     data s1 = data s \<and> data_file s1 = Some (Document (JSON_stringify (JArr (data s)))) \<and>
     release_calls s1 = release_calls s \<and> wal_file s1 = wal_file s \<and> lock s1 = lock s"
  by (auto simp: persist_def FileStore_write_def split: list.splits option.splits)

lemma persist_error:
  "persist s = (Some error, s1) \<Longrightarrow>
     (\<exists>code rest. write_faults s = Some code # rest \<and> error = write_error (filePath s) code \<and>
        data_file s1 = failed_write_leaves (torn_writes s) code (data_file s)) \<and>
     data s1 = data s \<and>
     release_calls s1 = release_calls s \<and> wal_file s1 = wal_file s \<and> lock s1 = lock s"
  by (auto simp: persist_def FileStore_write_def split: list.splits option.splits)

lemma persist_faulty:
  "write_faults s = Some code # rest \<Longrightarrow>
     persist s = (Some (write_error (filePath s) code),
                  s\<lparr>data_file := failed_write_leaves (torn_writes s) code (data_file s),
                    write_faults := rest\<rparr>)"
  by (simp add: persist_def FileStore_write_def)

lemma ensure_open: "ensureNotFinalized tx = None \<longleftrightarrow> \<not> committed tx \<and> \<not> rolledBack tx"
  by (simp add: ensureNotFinalized_def)

lemma rollback_open:
  "\<not> rolledBack tx \<Longrightarrow>
     rollback tx s = (tx\<lparr>rolledBack := True, operations := []\<rparr>,
                      lock_release (s\<lparr>data := elements (JSON_parse (snapshot tx))\<rparr>))"
  by (simp add: rollback_def)

lemma rollback_closed: "rolledBack tx \<Longrightarrow> rollback tx s = (tx, s)"
  by (simp add: rollback_def)

lemma commit_failed_eq:
  "\<not> rolledBack tx \<Longrightarrow>
   commit_failed error tx s =
     (Some (TransactionError (''Transaction commit failed: '' @ message error) (Some error)),
      tx\<lparr>rolledBack := True, operations := []\<rparr>,
      lock_release (s\<lparr>data := elements (JSON_parse (snapshot tx))\<rparr>))"
  by (simp add: commit_failed_def rollback_open)

text \<open>The three ways a commit of an open transaction ends.\<close>

lemma commit_cases:
  assumes "ensureNotFinalized tx = None"
  obtains
    (success) s1 s2 where "run_operations (operations tx) s = (None, s1)" "persist s1 = (None, s2)"
      "commit tx s = (None, tx\<lparr>committed := True\<rparr>, lock_release s2)"
  | (operation_failed) error s1 where "run_operations (operations tx) s = (Some error, s1)"
      "commit tx s =
         (Some (TransactionError (''Transaction commit failed: '' @ message error) (Some error)),
          tx\<lparr>rolledBack := True, operations := []\<rparr>,
          lock_release (lock_release (s1\<lparr>data := elements (JSON_parse (snapshot tx))\<rparr>)))"
  | (persist_failed) error s1 s2 where "run_operations (operations tx) s = (None, s1)"
      "persist s1 = (Some error, s2)"
      "commit tx s =
         (Some (TransactionError (''Transaction commit failed: '' @ message error) (Some error)),
          tx\<lparr>rolledBack := True, operations := []\<rparr>,
          lock_release (lock_release (s2\<lparr>data := elements (JSON_parse (snapshot tx))\<rparr>)))"
proof -
  from assms have nr: "\<not> rolledBack tx" by (simp add: ensure_open)
  obtain r1 s1 where o: "run_operations (operations tx) s = (r1, s1)"
    by (cases "run_operations (operations tx) s")
  show thesis
  proof (cases r1)
    case (Some error)
    with o assms nr have "commit tx s =
         (Some (TransactionError (''Transaction commit failed: '' @ message error) (Some error)),
          tx\<lparr>rolledBack := True, operations := []\<rparr>,
          lock_release (lock_release (s1\<lparr>data := elements (JSON_parse (snapshot tx))\<rparr>)))"
      by (simp add: commit_def commit_failed_eq)
    moreover from o Some have "run_operations (operations tx) s = (Some error, s1)" by simp
    ultimately show thesis by (rule operation_failed [rotated])
  next
    case None
    obtain r2 s2 where p: "persist s1 = (r2, s2)" by (cases "persist s1")
    from o None have o': "run_operations (operations tx) s = (None, s1)" by simp
    show thesis
    proof (cases r2)
      case None
      with p have p': "persist s1 = (None, s2)" by simp
      from o' p' assms have "commit tx s = (None, tx\<lparr>committed := True\<rparr>, lock_release s2)"
        by (simp add: commit_def)
      with o' p' show thesis by (rule success)
    next
      case (Some error)
      with p have p': "persist s1 = (Some error, s2)" by simp
      from o' p' assms nr have "commit tx s =
         (Some (TransactionError (''Transaction commit failed: '' @ message error) (Some error)),
          tx\<lparr>rolledBack := True, operations := []\<rparr>,
          lock_release (lock_release (s2\<lparr>data := elements (JSON_parse (snapshot tx))\<rparr>)))"
        by (simp add: commit_def commit_failed_eq)
      with o' p' show thesis by (rule persist_failed)
    qed
  qed
qed

text \<open>The number of releases of a commit of an open transaction, in general.\<close>

lemma commit_release_count:
  assumes "ensureNotFinalized tx = None" and "commit tx s = (r, tx1, s1)"
  shows "release_calls s1 = release_calls s + (if r = None then 1 else 2)"
  using assms(1)
proof (cases rule: commit_cases [where s = s])
  case (success s1' s2)
  from run_operations_frame [OF success(1)] persist_ok [OF success(2)]
  have "release_calls s2 = release_calls s" by (simp add: same_but_data_def)
  with success(3) assms(2) show ?thesis by (simp add: lock_release_def)
next
  case (operation_failed error s1')
  from run_operations_frame [OF operation_failed(1)]
  have "release_calls s1' = release_calls s" by (simp add: same_but_data_def)
  with operation_failed(2) assms(2) show ?thesis by (auto simp add: lock_release_def)
next
  case (persist_failed error s1' s2)
  from run_operations_frame [OF persist_failed(1)] persist_error [OF persist_failed(2)]
  have "release_calls s2 = release_calls s" by (simp add: same_but_data_def)
  with persist_failed(3) assms(2) show ?thesis by (auto simp add: lock_release_def)
qed

lemma snapshot_new: "snapshot (Transaction_new s0) = JSON_stringify (JArr (data s0))"
  by (simp add: Transaction_new_def)

lemma lock_release_data [simp]:
  "data (lock_release s) = data s" "data_file (lock_release s) = data_file s"
  "wal_file (lock_release s) = wal_file s" "release_calls (lock_release s) = Suc (release_calls s)"
  by (simp_all add: lock_release_def)

lemma commit_error_restores:
  assumes "open": "ensureNotFinalized tx = None" and c: "commit tx s = (Some e, tx1, s1)"
  shows "data s1 = elements (JSON_parse (snapshot tx)) \<and> rolledBack tx1"
  using "open"
proof (cases rule: commit_cases [where s = s])
  case (success s1' s2)
  with c show ?thesis by simp
next
  case (operation_failed error s1')
  with c show ?thesis by auto
next
  case (persist_failed error s1' s2)
  with c show ?thesis by auto
qed

lemma map_of_set_prop: "map_of (set_prop k v kvs) = (map_of kvs)(k \<mapsto> v)"
  by (induction kvs) auto

lemma keys_set_prop: "fst ` set (set_prop k v kvs) = insert k (fst ` set kvs)"
  by (induction kvs) auto

lemma distinct_set_prop: "distinct (map fst kvs) \<Longrightarrow> distinct (map fst (set_prop k v kvs))"
  by (induction kvs) (auto simp: keys_set_prop)

lemma assign_all_props:
  "distinct (map fst target) \<Longrightarrow>
     distinct (map fst (assign_all target src)) \<and>
     map_of (assign_all target src) = map_of target ++ map_of (rev src)"
proof (induction src arbitrary: target)
  case Nil
  then show ?case by (simp add: assign_all_def)
next
  case (Cons kv src)
  have step: "assign_all target (kv # src) = assign_all (set_prop (fst kv) (snd kv) target) src"
    by (simp add: assign_all_def)
  have "map_of target ++ map_of (rev (kv # src)) = (map_of target)(fst kv \<mapsto> snd kv) ++ map_of (rev src)"
    by (cases kv) (simp add: map_of_append)
  moreover have "distinct (map fst (assign_all (set_prop (fst kv) (snd kv) target) src)) \<and>
        map_of (assign_all (set_prop (fst kv) (snd kv) target) src) =
          (map_of target)(fst kv \<mapsto> snd kv) ++ map_of (rev src)"
    using Cons.IH [OF distinct_set_prop [OF Cons.prems], of "fst kv" "snd kv"]
    by (simp only: map_of_set_prop)
  ultimately show ?case
    unfolding step by simp
qed

lemma map_of_rev_distinct: "distinct (map fst xs) \<Longrightarrow> map_of (rev xs) = map_of xs"
proof (induction xs)
  case Nil
  then show ?case by simp
next
  case (Cons x xs)
  then have n: "map_of xs (fst x) = None" by (simp add: map_of_eq_None_iff)
  have "map_of (rev (x # xs)) = map_of [x] ++ map_of xs"
    using Cons by (simp add: map_of_append)
  also have "\<dots> = map_of (x # xs)"
    using n by (cases x) (auto simp: map_add_def fun_eq_iff split: option.splits)
  finally show ?case .
qed

lemma get_prop_object_spread:
  "get_prop (object_spread r u) k = (case get_prop u k of Some v \<Rightarrow> Some v | None \<Rightarrow> get_prop r k)"
proof -
  have a: "distinct (map fst (assign_all [] (props r)))"
    and b: "map_of (assign_all [] (props r)) = map_of (rev (props r))"
    using assign_all_props [of "[]" "props r"] by simp_all
  from assign_all_props [OF a, of "props u"] b
  have d: "distinct (map fst (assign_all (assign_all [] (props r)) (props u)))"
    and m: "map_of (assign_all (assign_all [] (props r)) (props u)) = map_of (rev (props r)) ++ map_of (rev (props u))"
    by simp_all
  show ?thesis
    unfolding get_prop_def object_spread_def
    by (simp add: map_of_rev_distinct [OF d] m map_add_def split: option.splits)
qed

lemma update_loop_total:
  "update_loop (\<lambda>r. Inr (matches r)) u i d =
     (None, take i d @ map (\<lambda>r. if matches r then object_spread r u else r) (drop i d))"
proof (induction "\<lambda>r::jsval. (Inr (matches r) :: js_error + bool)" u i d rule: update_loop.induct)
  case (1 u i d)
  show ?case
  proof (cases "i < length d")
    case False
    then show ?thesis by (simp add: update_loop.simps)
  next
    case True
    let ?f = "\<lambda>r. if matches r then object_spread r u else r"
    let ?d = "if matches (d ! i) then d[i := object_spread (d ! i) u] else d"
    have IH: "update_loop (\<lambda>r. Inr (matches r)) u (Suc i) ?d =
              (None, take (Suc i) ?d @ map ?f (drop (Suc i) ?d))"
      using "1" [OF True, of "matches (d ! i)"] by simp
    have t: "take (Suc i) ?d = take i d @ [?f (d ! i)]"
      using True by (simp add: take_Suc_conv_app_nth)
    have dr: "drop (Suc i) ?d = drop (Suc i) d" by simp
    have "take (Suc i) ?d @ map ?f (drop (Suc i) ?d) = take i d @ map ?f (drop i d)"
      unfolding t dr using True by (simp add: Cons_nth_drop_Suc [symmetric])
    with IH True show ?thesis
      by (subst update_loop.simps) simp
  qed
qed

lemma findIndex_first:
  "findIndex p xs = i \<Longrightarrow> 0 \<le> i \<Longrightarrow> nat i < length xs \<and> p (xs ! nat i) \<and> (\<forall>j < nat i. \<not> p (xs ! j))"
proof (induction xs arbitrary: i)
  case Nil
  then show ?case by simp
next
  case (Cons x xs)
  show ?case
  proof (cases "p x")
    case True
    with Cons.prems show ?thesis by simp
  next
    case False
    let ?k = "findIndex p xs"
    from Cons.prems False have k: "0 \<le> ?k" "i = ?k + 1"
      by (auto simp: Let_def split: if_splits)
    from Cons.IH [OF refl k(1)] have IH: "nat ?k < length xs" "p (xs ! nat ?k)" "\<forall>j < nat ?k. \<not> p (xs ! j)"
      by simp_all
    have n: "nat i = Suc (nat ?k)" using k by simp
    show ?thesis
      unfolding n using IH False by (auto simp: less_Suc_eq_0_disj)
  qed
qed

lemma findIndex_none: "findIndex p xs < 0 \<Longrightarrow> \<forall>x\<in>set xs. \<not> p x"
  by (induction xs) (auto simp: Let_def split: if_splits)

lemma findIndex_ge: "- 1 \<le> findIndex p xs"
  by (induction xs) (auto simp: Let_def)

lemma db_created_eq:
  "db_created faults =
     \<lparr>data = [rec_active], initialized = True, filePath = ''db/users.json'',
      lock = \<lparr>locked = False, queue = [], timeout = 5000\<rparr>, wal = None,
      config = mergeConfig cfg_users,
      data_file = Some (Document (TArr [TObj [(''id'', TNum 1), (''status'', TStr ''active'')]])),
      wal_file = None, write_faults = faults, torn_writes = False, release_calls = 1,
      trace = []\<rparr>"
  by (simp add: db_created_def init_def LuxDB_new_def Mutex_new_def Mutex_acquire_def
      FileStore_initialize_def FileStore_read_def lock_release_def Mutex_release_def
      mergeConfig_def cfg_users_def or_default_def rec_active_def)

lemma beginTransaction_eq:
  "beginTransaction 1 (db_created faults) =
     (Returned tx_begun, (db_created faults)\<lparr>lock := \<lparr>locked = True, queue = [], timeout = 5000\<rparr>\<rparr>)"
  by (simp add: beginTransaction_def init_def db_created_eq Mutex_acquire_def tx_begun_def
      db_begun_def Transaction_new_def)

lemma db_begun_eq:
  "db_begun faults =
     \<lparr>data = [rec_active], initialized = True, filePath = ''db/users.json'',
      lock = \<lparr>locked = True, queue = [], timeout = 5000\<rparr>, wal = None,
      config = mergeConfig cfg_users,
      data_file = Some (Document (TArr [TObj [(''id'', TNum 1), (''status'', TStr ''active'')]])),
      wal_file = None, write_faults = faults, torn_writes = False, release_calls = 1,
      trace = []\<rparr>"
  unfolding db_begun_def beginTransaction_eq by (simp add: db_created_eq)

lemma tx_begun_eq:
  "tx_begun = \<lparr>snapshot = TArr [TObj [(''id'', TNum 1), (''status'', TStr ''active'')]],
               operations = [], committed = False, rolledBack = False\<rparr>"
  by (simp add: tx_begun_def Transaction_new_def db_begun_eq rec_active_def)

lemma staged_eq:
  "Transaction_update (\<lambda>r. Inr (has_id1 r)) (JObj [(''status'', JStr ''inactive'')]) tx_begun = Inr tx_update"
  "Transaction_update (\<lambda>r. Inl (Error ''boom'')) (JObj []) tx_begun = Inr tx_throwing"
  by (simp_all add: Transaction_update_def stage_def ensureNotFinalized_def tx_begun_eq
      tx_update_def tx_throwing_def)

lemma spread_inactive: "object_spread rec_active (JObj [(''status'', JStr ''inactive'')]) = rec_inactive"
  by (simp add: object_spread_def assign_all_def rec_active_def rec_inactive_def)

lemma run_tx_update:
  "run_operations (operations tx_update) (db_begun faults) = (None, (db_begun faults)\<lparr>data := [rec_inactive]\<rparr>)"
  by (simp add: tx_update_def update_loop.simps db_begun_eq has_id1_def get_prop_def spread_inactive)
     (simp add: rec_active_def)

lemma commit_tx_update_ok:
  "commit tx_update (db_begun []) =
     (None, tx_update\<lparr>committed := True\<rparr>,
      (db_begun [])\<lparr>data := [rec_inactive],
                    data_file := Some (Document (TArr [TObj [(''id'', TNum 1), (''status'', TStr ''inactive'')]])),
                    lock := \<lparr>locked = False, queue = [], timeout = 5000\<rparr>,
                    release_calls := 2\<rparr>)"
proof -
  have e: "ensureNotFinalized tx_update = None"
    by (simp add: ensureNotFinalized_def tx_update_def tx_begun_eq)
  show ?thesis
    unfolding commit_def e run_tx_update
    by (simp add: persist_def FileStore_write_def lock_release_def Mutex_release_def db_begun_eq
        rec_inactive_def)
qed

lemma tx_open:
  "ensureNotFinalized tx_begun = None" "ensureNotFinalized tx_update = None"
  "ensureNotFinalized tx_throwing = None"
  by (simp_all add: ensureNotFinalized_def tx_update_def tx_throwing_def tx_begun_eq)

lemma commit_tx_update_faulty:
  "commit tx_update (db_begun [Some code]) =
     (Some (TransactionError
              (''Transaction commit failed: '' @ message (write_error ''db/users.json'' code))
              (Some (write_error ''db/users.json'' code))),
      tx_update\<lparr>rolledBack := True, operations := []\<rparr>,
      (db_begun [])\<lparr>data_file := failed_write_leaves False code (data_file (db_begun [])),
                    lock := \<lparr>locked = False, queue = [], timeout = 5000\<rparr>, release_calls := 3\<rparr>)"
  unfolding commit_def tx_open run_tx_update
  by (simp add: persist_def FileStore_write_def commit_failed_def rollback_def lock_release_def
      Mutex_release_def db_begun_eq tx_update_def tx_begun_eq rec_active_def)

lemma commit_tx_throwing:
  "commit tx_throwing (db_begun []) =
     (Some (TransactionError ''Transaction commit failed: boom'' (Some (Error ''boom''))),
      tx_throwing\<lparr>rolledBack := True, operations := []\<rparr>,
      (db_begun [])\<lparr>lock := \<lparr>locked = False, queue = [], timeout = 5000\<rparr>, release_calls := 3\<rparr>)"
  unfolding commit_def tx_open
  by (simp add: tx_throwing_def update_loop.simps commit_failed_def rollback_def lock_release_def
      Mutex_release_def db_begun_eq tx_begun_eq rec_active_def)

text \<open>Two callers are queued on the lock while the transaction commits.\<close>

lemma commit_contended:
  "queue (lock (snd (snd (commit tx_update
      ((db_begun [Some ''ENOSPC''])\<lparr>lock := \<lparr>locked = True, queue = [Waiter 5, Waiter 6], timeout = 5000\<rparr>\<rparr>)))))
   = [] \<and>
   queue (lock (snd (snd (commit tx_update
      ((db_begun [])\<lparr>lock := \<lparr>locked = True, queue = [Waiter 5, Waiter 6], timeout = 5000\<rparr>\<rparr>)))))
   = [Waiter 6]"
  by (simp add: commit_def ensureNotFinalized_def tx_update_def update_loop.simps db_begun_eq has_id1_def
      object_spread_def assign_all_def
      get_prop_def spread_inactive persist_def FileStore_write_def commit_failed_def rollback_def
      lock_release_def Mutex_release_def tx_begun_eq rec_active_def)

text \<open>
  C1. A commit that fails releases the lock twice: \<open>rollback()\<close>, called from the \<open>catch\<close>
  block, releases it in its own \<open>finally\<close>, and the \<open>finally\<close> of \<open>commit()\<close> releases it
  again. Here the database has released once before (in \<open>init\<close>): the count goes from 1 to
  3 when the persist fails and when a staged predicate throws, and from 1 to 2 on success.
  With two callers queued on the lock, the failing commit hands the lock to both of
  them, the successful one to the first only.
\<close>

theorem commit_failure_releases_twice:
  "release_calls (db_begun [Some ''ENOSPC'']) = 1 \<and>
   fst (commit tx_update (db_begun [Some ''ENOSPC''])) =
     Some (TransactionError
             ''Transaction commit failed: No space left on device for file: db/users.json''
             (Some (DatabaseError ''No space left on device for file: db/users.json'' ''ENOSPC''))) \<and>
   release_calls (snd (snd (commit tx_update (db_begun [Some ''ENOSPC''])))) = 3 \<and>
   release_calls (db_begun []) = 1 \<and>
   fst (commit tx_throwing (db_begun [])) =
     Some (TransactionError ''Transaction commit failed: boom'' (Some (Error ''boom''))) \<and>
   release_calls (snd (snd (commit tx_throwing (db_begun [])))) = 3 \<and>
   fst (commit tx_update (db_begun [])) = None \<and>
   release_calls (snd (snd (commit tx_update (db_begun [])))) = 2 \<and>
   queue (lock (snd (snd (commit tx_update
      ((db_begun [Some ''ENOSPC''])\<lparr>lock := \<lparr>locked = True, queue = [Waiter 5, Waiter 6], timeout = 5000\<rparr>\<rparr>)))))
     = [] \<and>
   queue (lock (snd (snd (commit tx_update
      ((db_begun [])\<lparr>lock := \<lparr>locked = True, queue = [Waiter 5, Waiter 6], timeout = 5000\<rparr>\<rparr>)))))
     = [Waiter 6]"
proof -
  have "release_calls (db_begun [Some ''ENOSPC'']) = 1 \<and>
   fst (commit tx_update (db_begun [Some ''ENOSPC''])) =
     Some (TransactionError
             ''Transaction commit failed: No space left on device for file: db/users.json''
             (Some (DatabaseError ''No space left on device for file: db/users.json'' ''ENOSPC''))) \<and>
   release_calls (snd (snd (commit tx_update (db_begun [Some ''ENOSPC''])))) = 3 \<and>
   release_calls (db_begun []) = 1 \<and>
   fst (commit tx_throwing (db_begun [])) =
     Some (TransactionError ''Transaction commit failed: boom'' (Some (Error ''boom''))) \<and>
   release_calls (snd (snd (commit tx_throwing (db_begun [])))) = 3 \<and>
   fst (commit tx_update (db_begun [])) = None \<and>
   release_calls (snd (snd (commit tx_update (db_begun [])))) = 2"
    unfolding commit_tx_update_faulty commit_tx_throwing commit_tx_update_ok
    by (simp add: db_begun_eq write_error_def)
  with commit_contended show ?thesis by blast
qed

text \<open>
  An open transaction whose staged operations all run and whose persist then fails (the
  \<open>writeFile\<close> of the data file fails with \<open>code\<close>): when every step of \<open>commit()\<close> has run,
  the error is a \<open>TransactionError\<close> whose \<open>originalError\<close> is the error of the file store,
  and the table is what the snapshot taken at construction parses to.
\<close>

lemma commit_persist_failure_state:
  assumes "open": "ensureNotFinalized tx = None"
    and ops: "run_operations (operations tx) s = (None, s1)"
    and fault: "write_faults s = Some code # rest"
    and snap: "snapshot tx = snapshot (Transaction_new s0)"
  shows "\<exists>tx' s'. commit tx s =
            (Some (TransactionError
                     (''Transaction commit failed: '' @ message (write_error (filePath s) code))
                     (Some (write_error (filePath s) code))), tx', s') \<and>
           data s' = elements (JSON_parse (snapshot tx)) \<and>
           JSON_stringify (JArr (data s')) = JSON_stringify (JArr (data s0)) \<and>
           (list_all json_clean (data s0) \<longrightarrow> data s' = data s0) \<and>
           data_file s' = failed_write_leaves (torn_writes s) code (data_file s)"
proof -
  from run_operations_frame [OF ops] have f: "same_but_data s s1" .
  then have wf: "write_faults s1 = Some code # rest" and fp: "filePath s1 = filePath s"
    and df: "data_file s1 = data_file s" "torn_writes s1 = torn_writes s"
    using fault by (simp_all add: same_but_data_def)
  have p: "persist s1 = (Some (write_error (filePath s) code),
                         s1\<lparr>data_file := failed_write_leaves (torn_writes s) code (data_file s),
                            write_faults := rest\<rparr>)"
    using persist_faulty [OF wf] fp df by simp
  from "open" have nr: "\<not> rolledBack tx" by (simp add: ensure_open)
  have c: "commit tx s =
            (Some (TransactionError
                     (''Transaction commit failed: '' @ message (write_error (filePath s) code))
                     (Some (write_error (filePath s) code))),
             tx\<lparr>rolledBack := True, operations := []\<rparr>,
             lock_release (lock_release (s1\<lparr>data_file := failed_write_leaves (torn_writes s) code (data_file s),
                                              write_faults := rest,
                                              data := elements (JSON_parse (snapshot tx))\<rparr>)))"
    using "open" ops p nr by (simp add: commit_def commit_failed_eq)
  show ?thesis
    unfolding c
    by (simp add: snap snapshot_new restore_stringify restore_clean del: JSON_stringify.simps JSON_parse.simps)
qed

lemma release_free:
  "queue m = [] \<Longrightarrow> fst (Mutex_release m) = None"
  "queue m = [] \<Longrightarrow> queue (snd (Mutex_release m)) = []"
  "queue (lock s) = [] \<Longrightarrow> queue (lock (lock_release s)) = []"
  by (simp_all add: Mutex_release_def lock_release_def)

lemma release_waking_free:
  "queue (lock (database l)) = [] \<Longrightarrow>
     release_waking l = l\<lparr>database := lock_release (database l)\<rparr>"
  by (simp add: release_waking_def woken_def release_free)

text \<open>
  When nobody waits for the lock, the steps of \<open>commit()\<close> add up to \<open>commit\<close>, and its
  caller finds the table that \<open>commit\<close> leaves.
\<close>

lemma commit_steps_agree:
  assumes m: "microtasks l = []" and q: "queue (lock (database l)) = []"
  shows "microtasks (run_jobs 5 (commit_starts l)) = [] \<and>
         transaction (run_jobs 5 (commit_starts l)) = fst (snd (commit (transaction l) (database l))) \<and>
         database (run_jobs 5 (commit_starts l)) = snd (snd (commit (transaction l) (database l))) \<and>
         surfaced (run_jobs 5 (commit_starts l)) =
           Some (fst (commit (transaction l) (database l)),
                 data (snd (snd (commit (transaction l) (database l)))))"
proof (cases "ensureNotFinalized (transaction l)")
  case (Some e)
  then show ?thesis
    using m by (simp add: commit_starts_def commit_def numeral_eq_Suc)
next
  case None
  then have nr: "\<not> rolledBack (transaction l)" by (simp add: ensure_open)
  from None show ?thesis
  proof (cases rule: commit_cases [where s = "database l"])
    case (success s1 s2)
    from run_operations_frame [OF success(1)] persist_ok [OF success(2)] q
    have q2: "queue (lock s2) = []" by (simp add: same_but_data_def)
    show ?thesis
      unfolding success(3) using None success(1,2) m q2
      by (simp add: commit_starts_def numeral_eq_Suc release_waking_free Let_def)
  next
    case (operation_failed error s1)
    from run_operations_frame [OF operation_failed(1)] q
    have q1: "queue (lock s1) = []" by (simp add: same_but_data_def)
    show ?thesis
      unfolding operation_failed(2) using None operation_failed(1) m q1 nr
      by (simp add: commit_starts_def commit_catches_def rollback_waking_def numeral_eq_Suc
          release_waking_free release_free Let_def)
  next
    case (persist_failed error s1 s2)
    from run_operations_frame [OF persist_failed(1)] persist_error [OF persist_failed(2)] q
    have q2: "queue (lock s2) = []" by (simp add: same_but_data_def)
    show ?thesis
      unfolding persist_failed(3) using None persist_failed(1,2) m q2 nr
      by (simp add: commit_starts_def commit_catches_def rollback_waking_def numeral_eq_Suc
          release_waking_free release_free Let_def)
  qed
qed

text \<open>The steps of the failing commit with a call of \<open>insert\<close> waiting, one job at a time.\<close>

lemma insert_waits:
  "LuxDB_insert 5 rec_inactive (db_begun [Some ''ENOSPC'']) =
     (Suspended,
      (db_begun [Some ''ENOSPC''])\<lparr>lock := \<lparr>locked = True, queue = [Waiter 5], timeout = 5000\<rparr>\<rparr>)"
  by (simp add: LuxDB_insert_def with_lock_def init_def db_begun_eq Mutex_acquire_def)

lemma run_tx_update_on:
  "data s = [rec_active] \<Longrightarrow>
     run_operations (operations tx_update) s = (None, s\<lparr>data := [rec_inactive]\<rparr>)"
  by (simp add: tx_update_def update_loop.simps has_id1_def get_prop_def spread_inactive)
     (simp add: rec_active_def)

lemma contended_starts:
  "commit_starts commit_contended_by_insert =
     \<lparr>database = (db_begun [])\<lparr>data := [rec_inactive], data_file := Some Emptied,
                    lock := \<lparr>locked = True, queue = [Waiter 5], timeout = 5000\<rparr>\<rparr>,
      transaction = tx_update,
      microtasks = [Commit_after_persist
                      (Some (DatabaseError ''No space left on device for file: db/users.json'' ''ENOSPC''))],
      acquiring = [(5, rec_inactive)], persisting = [], surfaced = None\<rparr>"
  unfolding commit_contended_by_insert_def insert_waits
  by (simp add: commit_starts_def tx_open run_tx_update_on db_begun_eq)
     (simp add: persist_def FileStore_write_def write_error_def failed_write_leaves_def
      fails_on_open_def)

lemma alone_starts:
  "commit_starts commit_alone =
     \<lparr>database = (db_begun [])\<lparr>data := [rec_inactive], data_file := Some Emptied\<rparr>,
      transaction = tx_update,
      microtasks = [Commit_after_persist
                      (Some (DatabaseError ''No space left on device for file: db/users.json'' ''ENOSPC''))],
      acquiring = [], persisting = [], surfaced = None\<rparr>"
  unfolding commit_alone_def
  by (simp add: commit_starts_def tx_open run_tx_update)
     (simp add: db_begun_eq persist_def FileStore_write_def write_error_def failed_write_leaves_def
      fails_on_open_def)

lemmas step_eval = numeral_eq_Suc commit_catches_def rollback_waking_def release_waking_def
  woken_def lock_release_def Mutex_release_def Let_def insert_push_def emit_def

lemma snapshot_update: "elements (JSON_parse (snapshot tx_update)) = [rec_active]"
  by (simp add: tx_update_def tx_begun_eq rec_active_def)

lemma tx_update_not_rolled_back: "\<not> rolledBack tx_update" by (simp add: tx_update_def tx_begun_eq)

lemma contended_1:
  "run_jobs 1 (commit_starts commit_contended_by_insert) =
     \<lparr>database = (db_begun [])\<lparr>data := [rec_active], data_file := Some Emptied,
                    lock := \<lparr>locked = True, queue = [], timeout = 5000\<rparr>, release_calls := 2\<rparr>,
      transaction = tx_update\<lparr>rolledBack := True, operations := []\<rparr>,
      microtasks = [Acquire_settles 5, Commit_after_rollback
                      (DatabaseError ''No space left on device for file: db/users.json'' ''ENOSPC'')],
      acquiring = [(5, rec_inactive)], persisting = [], surfaced = None\<rparr>"
  unfolding contended_starts
  by (simp add: step_eval snapshot_update tx_update_not_rolled_back) (simp add: db_begun_eq)

lemma run_jobs_Suc: "run_jobs (Suc n) l = run_jobs (Suc 0) (run_jobs n l)"
proof (induction n arbitrary: l)
  case 0
  show ?case by simp
next
  case (Suc n)
  show ?case
  proof (cases "microtasks l")
    case Nil
    then show ?thesis by simp
  next
    case (Cons j rest)
    let ?l = "run_job j (l\<lparr>microtasks := rest\<rparr>)"
    have a: "run_jobs (Suc (Suc n)) l = run_jobs (Suc n) ?l" using Cons by simp
    have b: "run_jobs (Suc n) l = run_jobs n ?l" using Cons by simp
    show ?thesis unfolding a b by (rule Suc.IH)
  qed
qed

lemma contended_2:
  "run_jobs 2 (commit_starts commit_contended_by_insert) =
     \<lparr>database = (db_begun [])\<lparr>data := [rec_active], data_file := Some Emptied,
                    lock := \<lparr>locked = True, queue = [], timeout = 5000\<rparr>, release_calls := 2\<rparr>,
      transaction = tx_update\<lparr>rolledBack := True, operations := []\<rparr>,
      microtasks = [Commit_after_rollback
                      (DatabaseError ''No space left on device for file: db/users.json'' ''ENOSPC''),
                    Insert_after_acquire 5],
      acquiring = [(5, rec_inactive)], persisting = [], surfaced = None\<rparr>"
proof -
  have e: "(2::nat) = Suc 1" by simp
  show ?thesis unfolding e run_jobs_Suc [of 1] contended_1 by simp
qed

lemma contended_3:
  "run_jobs 3 (commit_starts commit_contended_by_insert) =
     \<lparr>database = (db_begun [])\<lparr>data := [rec_active], data_file := Some Emptied,
                    lock := \<lparr>locked = False, queue = [], timeout = 5000\<rparr>, release_calls := 3\<rparr>,
      transaction = tx_update\<lparr>rolledBack := True, operations := []\<rparr>,
      microtasks = [Insert_after_acquire 5,
                    Caller_after_commit
                      (Some (TransactionError
                         ''Transaction commit failed: No space left on device for file: db/users.json''
                         (Some (DatabaseError ''No space left on device for file: db/users.json'' ''ENOSPC''))))],
      acquiring = [(5, rec_inactive)], persisting = [], surfaced = None\<rparr>"
proof -
  have e: "(3::nat) = Suc 2" by simp
  show ?thesis unfolding e run_jobs_Suc [of 2] contended_2 by (simp add: step_eval db_begun_eq)
qed

lemma contended_4:
  "run_jobs 4 (commit_starts commit_contended_by_insert) =
     \<lparr>database = (db_begun [])\<lparr>data := [rec_active, rec_inactive], data_file := Some Emptied,
                    lock := \<lparr>locked = False, queue = [], timeout = 5000\<rparr>, release_calls := 3,
                    trace := [Lock_acquired]\<rparr>,
      transaction = tx_update\<lparr>rolledBack := True, operations := []\<rparr>,
      microtasks = [Caller_after_commit
                      (Some (TransactionError
                         ''Transaction commit failed: No space left on device for file: db/users.json''
                         (Some (DatabaseError ''No space left on device for file: db/users.json'' ''ENOSPC''))))],
      acquiring = [], persisting = [5], surfaced = None\<rparr>"
proof -
  have e: "(4::nat) = Suc 3" by simp
  show ?thesis unfolding e run_jobs_Suc [of 3] contended_3
    by (simp add: step_eval) (simp add: db_begun_eq rec_inactive_def)
qed

lemma contended_5:
  "run_jobs 5 (commit_starts commit_contended_by_insert) =
     \<lparr>database = (db_begun [])\<lparr>data := [rec_active, rec_inactive], data_file := Some Emptied,
                    lock := \<lparr>locked = False, queue = [], timeout = 5000\<rparr>, release_calls := 3,
                    trace := [Lock_acquired]\<rparr>,
      transaction = tx_update\<lparr>rolledBack := True, operations := []\<rparr>,
      microtasks = [],
      acquiring = [], persisting = [5],
      surfaced = Some (Some (TransactionError
                         ''Transaction commit failed: No space left on device for file: db/users.json''
                         (Some (DatabaseError ''No space left on device for file: db/users.json'' ''ENOSPC''))),
                       [rec_active, rec_inactive])\<rparr>"
proof -
  have e: "(5::nat) = Suc 4" by simp
  show ?thesis unfolding e run_jobs_Suc [of 4] contended_4 by simp
qed

lemma alone_5:
  "surfaced (run_jobs 5 (commit_starts commit_alone)) =
     Some (Some (TransactionError
                   ''Transaction commit failed: No space left on device for file: db/users.json''
                   (Some (DatabaseError ''No space left on device for file: db/users.json'' ''ENOSPC''))),
           [rec_active])"
  unfolding alone_starts
  by (simp add: step_eval snapshot_update tx_update_not_rolled_back db_begun_eq)

text \<open>
  C2. A transaction is committed, the write of its persist fails for lack of space, and
  a call \<open>insert(rec_inactive)\<close> made in the meantime waits for the lock. The error that
  reaches the caller is the \<open>TransactionError\<close> that wraps the error of the file store, but
  the table the caller finds is not the snapshot \<open>[rec_active]\<close>: it holds the record of
  the waiting call as well. \<open>rollback()\<close>, called in the \<open>catch\<close> block, restores the table
  and releases the lock in its own \<open>finally\<close>, which resolves the promise of the waiting
  call before \<open>commit()\<close> goes on after \<open>await this.rollback()\<close>; so the waiting call
  enters its \<open>try\<close> block and pushes its record one job before the caller of \<open>commit()\<close>
  goes on. By then \<open>commit()\<close> has released the lock a second time, and it is free while
  the insert is under way. Without the waiting call the caller finds the snapshot.
\<close>

theorem commit_error_surfaces_after_queued_insert:
  "LuxDB_insert 5 rec_inactive (db_begun [Some ''ENOSPC'']) =
     (Suspended, database commit_contended_by_insert) \<and>
   queue (lock (database commit_contended_by_insert)) = [Waiter 5] \<and>
   elements (JSON_parse (snapshot (transaction commit_contended_by_insert))) = [rec_active] \<and>
   microtasks (commit_starts commit_contended_by_insert) =
     [Commit_after_persist
        (Some (DatabaseError ''No space left on device for file: db/users.json'' ''ENOSPC''))] \<and>
   data (database (commit_starts commit_contended_by_insert)) = [rec_inactive] \<and>
   microtasks (run_jobs 1 (commit_starts commit_contended_by_insert)) =
     [Acquire_settles 5,
      Commit_after_rollback
        (DatabaseError ''No space left on device for file: db/users.json'' ''ENOSPC'')] \<and>
   data (database (run_jobs 1 (commit_starts commit_contended_by_insert))) = [rec_active] \<and>
   microtasks (run_jobs 2 (commit_starts commit_contended_by_insert)) =
     [Commit_after_rollback
        (DatabaseError ''No space left on device for file: db/users.json'' ''ENOSPC''),
      Insert_after_acquire 5] \<and>
   microtasks (run_jobs 3 (commit_starts commit_contended_by_insert)) =
     [Insert_after_acquire 5,
      Caller_after_commit
        (Some (TransactionError
                 ''Transaction commit failed: No space left on device for file: db/users.json''
                 (Some (DatabaseError ''No space left on device for file: db/users.json'' ''ENOSPC''))))] \<and>
   locked (lock (database (run_jobs 3 (commit_starts commit_contended_by_insert)))) = False \<and>
   microtasks (run_jobs 4 (commit_starts commit_contended_by_insert)) =
     [Caller_after_commit
        (Some (TransactionError
                 ''Transaction commit failed: No space left on device for file: db/users.json''
                 (Some (DatabaseError ''No space left on device for file: db/users.json'' ''ENOSPC''))))] \<and>
   data (database (run_jobs 4 (commit_starts commit_contended_by_insert))) =
     [rec_active, rec_inactive] \<and>
   microtasks (run_jobs 5 (commit_starts commit_contended_by_insert)) = [] \<and>
   surfaced (run_jobs 5 (commit_starts commit_contended_by_insert)) =
     Some (Some (TransactionError
                   ''Transaction commit failed: No space left on device for file: db/users.json''
                   (Some (DatabaseError ''No space left on device for file: db/users.json'' ''ENOSPC''))),
           [rec_active, rec_inactive]) \<and>
   [rec_active, rec_inactive] \<noteq>
     elements (JSON_parse (snapshot (transaction commit_contended_by_insert))) \<and>
   surfaced (run_jobs 5 (commit_starts commit_alone)) =
     Some (Some (TransactionError
                   ''Transaction commit failed: No space left on device for file: db/users.json''
                   (Some (DatabaseError ''No space left on device for file: db/users.json'' ''ENOSPC''))),
           [rec_active])"
proof -
  let ?l = "commit_starts commit_contended_by_insert"
  have t: "transaction commit_contended_by_insert = tx_update"
    and d: "database commit_contended_by_insert =
             (db_begun [Some ''ENOSPC''])\<lparr>lock := \<lparr>locked = True, queue = [Waiter 5], timeout = 5000\<rparr>\<rparr>"
    by (simp_all add: commit_contended_by_insert_def insert_waits)
  have i: "LuxDB_insert 5 rec_inactive (db_begun [Some ''ENOSPC'']) =
             (Suspended, database commit_contended_by_insert)"
    unfolding d by (rule insert_waits)
  have q: "queue (lock (database commit_contended_by_insert)) = [Waiter 5]"
    unfolding d by simp
  have sn: "elements (JSON_parse (snapshot (transaction commit_contended_by_insert))) = [rec_active]"
    unfolding t by (rule snapshot_update)
  have c0: "microtasks ?l = [Commit_after_persist (Some (DatabaseError ''No space left on device for file: db/users.json'' ''ENOSPC''))]"
    "data (database ?l) = [rec_inactive]"
    unfolding contended_starts by simp_all
  have c1: "microtasks (run_jobs 1 ?l) = [Acquire_settles 5, Commit_after_rollback
        (DatabaseError ''No space left on device for file: db/users.json'' ''ENOSPC'')]"
    "data (database (run_jobs 1 ?l)) = [rec_active]"
    unfolding contended_1 by simp_all
  have c2: "microtasks (run_jobs 2 ?l) = [Commit_after_rollback
        (DatabaseError ''No space left on device for file: db/users.json'' ''ENOSPC''), Insert_after_acquire 5]"
    unfolding contended_2 by simp
  have c3: "microtasks (run_jobs 3 ?l) = [Insert_after_acquire 5, Caller_after_commit
        (Some (TransactionError
                 ''Transaction commit failed: No space left on device for file: db/users.json''
                 (Some (DatabaseError ''No space left on device for file: db/users.json'' ''ENOSPC''))))]"
    "locked (lock (database (run_jobs 3 ?l))) = False"
    unfolding contended_3 by simp_all
  have c4: "microtasks (run_jobs 4 ?l) = [Caller_after_commit
        (Some (TransactionError
                 ''Transaction commit failed: No space left on device for file: db/users.json''
                 (Some (DatabaseError ''No space left on device for file: db/users.json'' ''ENOSPC''))))]"
    "data (database (run_jobs 4 ?l)) = [rec_active, rec_inactive]"
    unfolding contended_4 by simp_all
  have c5: "microtasks (run_jobs 5 ?l) = []"
    "surfaced (run_jobs 5 ?l) = Some (Some (TransactionError
                   ''Transaction commit failed: No space left on device for file: db/users.json''
                   (Some (DatabaseError ''No space left on device for file: db/users.json'' ''ENOSPC''))),
           [rec_active, rec_inactive])"
    unfolding contended_5 by simp_all
  have ne: "[rec_active, rec_inactive] \<noteq>
              elements (JSON_parse (snapshot (transaction commit_contended_by_insert)))"
    unfolding sn by simp
  note a = alone_5
  from i q sn c0 c1 c2 c3 c4 c5 ne a show ?thesis by (intro conjI)
qed

text \<open>
  C6. A transaction constructed on the table of \<open>s0\<close>, with any operations staged.
  \<open>rollback()\<close>, whatever the table has become in the meantime (\<open>s\<close> is arbitrary, so also
  a table on which some staged operations were applied), assigns the parsed snapshot:
  the table serialises to the very text it serialised to at construction, and is equal
  to the table at construction when that holds no \<open>undefined\<close>. The same holds after a
  \<open>commit()\<close> that failed, and a \<open>rollback()\<close> called after it changes nothing.
\<close>

theorem rollback_restores_table:
  assumes snap: "snapshot tx = snapshot (Transaction_new s0)"
    and "open": "ensureNotFinalized tx = None"
  shows "JSON_stringify (JArr (data (snd (rollback tx s)))) = JSON_stringify (JArr (data s0)) \<and>
         (list_all json_clean (data s0) \<longrightarrow> data (snd (rollback tx s)) = data s0) \<and>
         (commit tx t = (Some e, tx1, t1) \<longrightarrow>
            JSON_stringify (JArr (data t1)) = JSON_stringify (JArr (data s0)) \<and>
            (list_all json_clean (data s0) \<longrightarrow> data t1 = data s0) \<and>
            rollback tx1 t1 = (tx1, t1))"
proof -
  from "open" have nr: "\<not> rolledBack tx" by (simp add: ensure_open)
  have d: "data (snd (rollback tx s)) = elements (JSON_parse (JSON_stringify (JArr (data s0))))"
    using nr by (simp add: rollback_open snap snapshot_new del: JSON_stringify.simps JSON_parse.simps)
  have 1: "JSON_stringify (JArr (data (snd (rollback tx s)))) = JSON_stringify (JArr (data s0))"
    unfolding d by (rule restore_stringify)
  have 2: "list_all json_clean (data s0) \<longrightarrow> data (snd (rollback tx s)) = data s0"
    unfolding d by (simp add: restore_clean del: JSON_stringify.simps JSON_parse.simps)
  have 3: "JSON_stringify (JArr (data t1)) = JSON_stringify (JArr (data s0)) \<and>
            (list_all json_clean (data s0) \<longrightarrow> data t1 = data s0) \<and>
            rollback tx1 t1 = (tx1, t1)"
    if c: "commit tx t = (Some e, tx1, t1)"
  proof -
    from commit_error_restores [OF "open" c]
    have d1: "data t1 = elements (JSON_parse (JSON_stringify (JArr (data s0))))" and rb: "rolledBack tx1"
      by (simp_all add: snap snapshot_new del: JSON_stringify.simps JSON_parse.simps)
    show ?thesis
      unfolding d1 using rb
      by (simp add: restore_stringify restore_clean rollback_closed del: JSON_stringify.simps JSON_parse.simps)
  qed
  from 1 2 3 show ?thesis by blast
qed

theorem rollback_restores_table_witness:
  "snapshot tx_update = snapshot (Transaction_new (db_begun [])) \<and>
   ensureNotFinalized tx_update = None \<and>
   list_all json_clean (data (db_begun [])) \<and>
   data ((db_begun [])\<lparr>data := [rec_inactive]\<rparr>) \<noteq> data (db_begun []) \<and>
   data (snd (rollback tx_update ((db_begun [])\<lparr>data := [rec_inactive]\<rparr>))) = data (db_begun []) \<and>
   commit tx_update (db_begun [Some ''EACCES'']) =
     (Some (TransactionError
              ''Transaction commit failed: Permission denied for file: db/users.json''
              (Some (DatabaseError ''Permission denied for file: db/users.json'' ''EACCES''))),
      tx_update\<lparr>rolledBack := True, operations := []\<rparr>,
      (db_begun [])\<lparr>lock := \<lparr>locked = False, queue = [], timeout = 5000\<rparr>, release_calls := 3\<rparr>) \<and>
   data ((db_begun [])\<lparr>lock := \<lparr>locked = False, queue = [], timeout = 5000\<rparr>, release_calls := 3\<rparr>)
     = data (db_begun []) \<and>
   rollback (tx_update\<lparr>rolledBack := True, operations := []\<rparr>)
     ((db_begun [])\<lparr>lock := \<lparr>locked = False, queue = [], timeout = 5000\<rparr>, release_calls := 3\<rparr>) =
     (tx_update\<lparr>rolledBack := True, operations := []\<rparr>,
      (db_begun [])\<lparr>lock := \<lparr>locked = False, queue = [], timeout = 5000\<rparr>, release_calls := 3\<rparr>)"
proof -
  have h1: "snapshot tx_update = snapshot (Transaction_new (db_begun []))"
    by (simp add: tx_update_def tx_begun_def Transaction_new_def)
  have h2: "ensureNotFinalized tx_update = None" by (rule tx_open)
  have h3: "list_all json_clean (data (db_begun []))"
    by (simp add: db_begun_eq rec_active_def)
  have h4: "data ((db_begun [])\<lparr>data := [rec_inactive]\<rparr>) \<noteq> data (db_begun [])"
    by (simp add: db_begun_eq rec_active_def rec_inactive_def)
  have c: "commit tx_update (db_begun [Some ''EACCES'']) =
     (Some (TransactionError
              ''Transaction commit failed: Permission denied for file: db/users.json''
              (Some (DatabaseError ''Permission denied for file: db/users.json'' ''EACCES''))),
      tx_update\<lparr>rolledBack := True, operations := []\<rparr>,
      (db_begun [])\<lparr>lock := \<lparr>locked = False, queue = [], timeout = 5000\<rparr>, release_calls := 3\<rparr>)"
    unfolding commit_tx_update_faulty
    by (simp add: write_error_def failed_write_leaves_def fails_on_open_def db_begun_eq)
  let ?s3 = "(db_begun [])\<lparr>lock := \<lparr>locked = False, queue = [], timeout = 5000\<rparr>, release_calls := 3\<rparr>"
  note t = rollback_restores_table [OF h1 h2, of "(db_begun [])\<lparr>data := [rec_inactive]\<rparr>"
      "db_begun [Some ''EACCES'']" _ "tx_update\<lparr>rolledBack := True, operations := []\<rparr>" ?s3]
  from t h3 have a: "data (snd (rollback tx_update ((db_begun [])\<lparr>data := [rec_inactive]\<rparr>))) = data (db_begun [])"
    by blast
  from t c have b: "rollback (tx_update\<lparr>rolledBack := True, operations := []\<rparr>) ?s3 =
                      (tx_update\<lparr>rolledBack := True, operations := []\<rparr>, ?s3)"
    by blast
  have d: "data ?s3 = data (db_begun [])" by simp
  from h1 h2 h3 h4 a c d b show ?thesis by (intro conjI)
qed

text \<open>
  C10. After a \<open>commit()\<close> that succeeded, \<open>rollback()\<close> is not a no-op and has no error
  path: the guard looks at \<open>rolledBack\<close> only, so the table is set back to the parsed
  snapshot while the data file keeps the committed table, and the lock is released a
  second time (once by the commit, once more by this rollback).
\<close>

theorem rollback_after_commit:
  assumes "open": "ensureNotFinalized tx = None" and ok: "commit tx s = (None, tx1, s1)"
  shows "\<exists>tx2 s2. rollback tx1 s1 = (tx2, s2) \<and> (tx2, s2) \<noteq> (tx1, s1) \<and>
           data s2 = elements (JSON_parse (snapshot tx)) \<and>
           data_file s2 = data_file s1 \<and>
           data_file s1 = Some (Document (JSON_stringify (JArr (data s1)))) \<and>
           release_calls s1 = release_calls s + 1 \<and>
           release_calls s2 = release_calls s + 2 \<and>
           committed tx2 \<and> rolledBack tx2"
  using "open"
proof (cases rule: commit_cases [where s = s])
  case (success s1' s2')
  from success(3) ok have tx1: "tx1 = tx\<lparr>committed := True\<rparr>" and s1: "s1 = lock_release s2'"
    by simp_all
  from "open" have nr: "\<not> rolledBack tx1" by (simp add: tx1 ensure_open)
  from run_operations_frame [OF success(1)] persist_ok [OF success(2)]
  have rc: "release_calls s2' = release_calls s"
    and df: "data_file s2' = Some (Document (JSON_stringify (JArr (data s2'))))"
    by (simp_all add: same_but_data_def)
  have r: "rollback tx1 s1 = (tx1\<lparr>rolledBack := True, operations := []\<rparr>,
                              lock_release (s1\<lparr>data := elements (JSON_parse (snapshot tx1))\<rparr>))"
    using nr by (rule rollback_open)
  have ne: "tx1\<lparr>rolledBack := True, operations := []\<rparr> \<noteq> tx1"
    using nr by (metis Transaction.select_convs(4) Transaction.surjective Transaction.update_convs(2,4))
  show ?thesis
    unfolding r using ne rc df
    by (simp add: tx1 s1 del: JSON_stringify.simps JSON_parse.simps)
next
  case (operation_failed error s1')
  with ok show ?thesis by simp
next
  case (persist_failed error s1' s2')
  with ok show ?thesis by simp
qed

theorem rollback_after_commit_witness:
  "ensureNotFinalized tx_update = None \<and>
   commit tx_update (db_begun []) =
     (None, tx_update\<lparr>committed := True\<rparr>,
      (db_begun [])\<lparr>data := [rec_inactive],
                    data_file := Some (Document (TArr [TObj [(''id'', TNum 1), (''status'', TStr ''inactive'')]])),
                    lock := \<lparr>locked = False, queue = [], timeout = 5000\<rparr>,
                    release_calls := 2\<rparr>) \<and>
   release_calls (db_begun []) = 1 \<and>
   release_calls (snd (rollback (tx_update\<lparr>committed := True\<rparr>)
     ((db_begun [])\<lparr>data := [rec_inactive],
                    data_file := Some (Document (TArr [TObj [(''id'', TNum 1), (''status'', TStr ''inactive'')]])),
                    lock := \<lparr>locked = False, queue = [], timeout = 5000\<rparr>,
                    release_calls := 2\<rparr>))) = release_calls (db_begun []) + 2 \<and>
   rollback (tx_update\<lparr>committed := True\<rparr>)
     ((db_begun [])\<lparr>data := [rec_inactive],
                    data_file := Some (Document (TArr [TObj [(''id'', TNum 1), (''status'', TStr ''inactive'')]])),
                    lock := \<lparr>locked = False, queue = [], timeout = 5000\<rparr>,
                    release_calls := 2\<rparr>) =
     (tx_update\<lparr>committed := True, rolledBack := True, operations := []\<rparr>,
      (db_begun [])\<lparr>data := [rec_active],
                    data_file := Some (Document (TArr [TObj [(''id'', TNum 1), (''status'', TStr ''inactive'')]])),
                    lock := \<lparr>locked = False, queue = [], timeout = 5000\<rparr>,
                    release_calls := 3\<rparr>)"
proof -
  have h1: "ensureNotFinalized tx_update = None" by (rule tx_open)
  note h2 = commit_tx_update_ok
  have rc: "release_calls (db_begun []) = 1" by (simp add: db_begun_eq)
  have sn: "elements (JSON_parse (snapshot tx_update)) = [rec_active]"
    by (simp add: tx_update_def tx_begun_eq rec_active_def)
  let ?s1 = "(db_begun [])\<lparr>data := [rec_inactive],
                    data_file := Some (Document (TArr [TObj [(''id'', TNum 1), (''status'', TStr ''inactive'')]])),
                    lock := \<lparr>locked = False, queue = [], timeout = 5000\<rparr>,
                    release_calls := 2\<rparr>"
  from rollback_after_commit [OF h1 h2]
  obtain tx2 s2 where r: "rollback (tx_update\<lparr>committed := True\<rparr>) ?s1 = (tx2, s2)"
    and f: "data s2 = elements (JSON_parse (snapshot tx_update))"
      "release_calls s2 = release_calls (db_begun []) + 2" "committed tx2" "rolledBack tx2"
    by blast
  have e: "rollback (tx_update\<lparr>committed := True\<rparr>) ?s1 =
     (tx_update\<lparr>committed := True, rolledBack := True, operations := []\<rparr>,
      (db_begun [])\<lparr>data := [rec_active],
                    data_file := Some (Document (TArr [TObj [(''id'', TNum 1), (''status'', TStr ''inactive'')]])),
                    lock := \<lparr>locked = False, queue = [], timeout = 5000\<rparr>,
                    release_calls := 3\<rparr>)"
    by (simp add: rollback_def tx_update_def tx_begun_eq lock_release_def Mutex_release_def
        rec_active_def)
  from r f(2) have g: "release_calls (snd (rollback (tx_update\<lparr>committed := True\<rparr>) ?s1)) =
                         release_calls (db_begun []) + 2"
    by simp
  from h1 h2 rc g e show ?thesis by (intro conjI)
qed

text \<open>
  C8. A staged update whose predicate does not throw. The table keeps its length; the
  first record that matches is replaced by the spread of the record and the update,
  and so is every other record that matches; a record that does not match is unchanged.
  In the merged record a key has the value the update gives it if the update has the
  key, and the value of the old record otherwise. A commit with this one staged
  operation and a persist that succeeds leaves exactly this table.
\<close>

theorem staged_update_merges:
  "(let operation = UpdateOp (\<lambda>r. Inr (matches r)) updates;
        d = data s;
        d' = data (snd (run_operation operation s))
    in fst (run_operation operation s) = None \<and>
       length d' = length d \<and>
       (0 \<le> findIndex matches d \<longrightarrow>
          d' ! nat (findIndex matches d) = object_spread (d ! nat (findIndex matches d)) updates) \<and>
       (\<forall>j<length d. d' ! j = (if matches (d ! j) then object_spread (d ! j) updates else d ! j)) \<and>
       (\<forall>r k. get_prop (object_spread r updates) k =
                (case get_prop updates k of Some v \<Rightarrow> Some v | None \<Rightarrow> get_prop r k)) \<and>
       (ensureNotFinalized tx = None \<and> operations tx = [operation] \<and> write_faults s = [] \<longrightarrow>
          fst (commit tx s) = None \<and> data (snd (snd (commit tx s))) = d'))"
proof -
  let ?op = "UpdateOp (\<lambda>r. Inr (matches r)) updates"
  let ?f = "\<lambda>r. if matches r then object_spread r updates else r"
  have run: "run_operation ?op s = (None, s\<lparr>data := map ?f (data s)\<rparr>)"
    by (simp add: update_loop_total)
  have first: "map ?f (data s) ! nat (findIndex matches (data s)) =
               object_spread (data s ! nat (findIndex matches (data s))) updates"
    if "0 \<le> findIndex matches (data s)"
    using findIndex_first [OF refl that] by simp
  have c: "fst (commit tx s) = None \<and> data (snd (snd (commit tx s))) = map ?f (data s)"
    if "ensureNotFinalized tx = None" "operations tx = [?op]" "write_faults s = []"
    using that run
    by (simp add: commit_def persist_def FileStore_write_def del: run_operation.simps JSON_stringify.simps)
  show ?thesis
    unfolding Let_def run using first c
    by (simp add: get_prop_object_spread del: run_operation.simps)
qed

theorem staged_update_merges_witness:
  "0 \<le> findIndex has_id1 (data (db_begun [])) \<and>
   (0 :: nat) < length (data (db_begun [])) \<and>
   has_id1 (data (db_begun []) ! 0) \<and>
   ensureNotFinalized tx_update = None \<and>
   operations tx_update = [UpdateOp (\<lambda>r. Inr (has_id1 r)) (JObj [(''status'', JStr ''inactive'')])] \<and>
   write_faults (db_begun []) = [] \<and>
   data (db_begun []) ! 0 = rec_active \<and>
   data (snd (run_operation (UpdateOp (\<lambda>r. Inr (has_id1 r)) (JObj [(''status'', JStr ''inactive'')]))
                 (db_begun []))) ! 0 = rec_inactive \<and>
   get_prop rec_inactive ''id'' = Some (JNum 1) \<and>
   get_prop rec_inactive ''status'' = Some (JStr ''inactive'') \<and>
   fst (commit tx_update (db_begun [])) = None \<and>
   data (snd (snd (commit tx_update (db_begun [])))) = [rec_inactive]"
proof -
  have d: "data (db_begun []) = [rec_active]" by (simp add: db_begun_eq)
  have h: "has_id1 rec_active" by (simp add: has_id1_def get_prop_def rec_active_def)
  have e: "ensureNotFinalized tx_update = None"
    by (simp add: ensureNotFinalized_def tx_update_def tx_begun_eq)
  have o: "operations tx_update = [UpdateOp (\<lambda>r. Inr (has_id1 r)) (JObj [(''status'', JStr ''inactive'')])]"
    by (simp add: tx_update_def)
  have w: "write_faults (db_begun []) = []" by (simp add: db_begun_eq)
  have g: "get_prop rec_inactive ''id'' = Some (JNum 1)"
          "get_prop rec_inactive ''status'' = Some (JStr ''inactive'')"
    by (simp_all add: get_prop_def rec_inactive_def)
  from staged_update_merges [of has_id1 "JObj [(''status'', JStr ''inactive'')]" "db_begun []" tx_update]
  show ?thesis
    unfolding Let_def using d h e o w g
    by (simp add: spread_inactive del: run_operation.simps) (auto simp: length_Suc_conv)
qed

section \<open>Properties of the direct mutating calls\<close>

lemma lock_release_wal [simp]:
  "wal (lock_release s) = wal s" "initialized (lock_release s) = initialized s"
  "trace (lock_release s) = trace s" "lock (lock_release s) = snd (Mutex_release (lock s))"
  by (simp_all add: lock_release_def)

lemma emit_frame [simp]:
  "wal (emit e s) = wal s" "wal_file (emit e s) = wal_file s" "data (emit e s) = data s"
  "data_file (emit e s) = data_file s" "lock (emit e s) = lock s"
  "release_calls (emit e s) = release_calls s" "trace (emit e s) = trace s @ [e]"
  by (simp_all add: emit_def)


























section \<open>Properties of the write-ahead log\<close>

lemma log_all_eq: "log_all es f = Inr (if es = [] then f else Some ((case f of None \<Rightarrow> [] | Some ls \<Rightarrow> ls) @ map Line es))"
  by (induction es arbitrary: f) (auto simp: WAL_log_def split: option.splits)

lemma parse_lines_Line: "parse_lines (map Line es) = Some es"
  by (induction es) simp_all

lemma five_count: "length five_inserts = 5"
  by (simp add: five_inserts_def)

text \<open>
  C9 as stated fails: the threshold cannot be configured. With \<open>walCheckpointThreshold\<close>
  5 in the configuration, the \<open>WAL\<close> of the database reports no need for a checkpoint on
  a log of five entries.
\<close>

theorem configured_threshold_ignored:
  "walCheckpointThreshold (config (LuxDB_new ''db/users.json'' cfg_small None None [])) = Some 5 \<and>
   wal (LuxDB_new ''db/users.json'' cfg_small None None []) = Some (WAL_new ''db/users.json'') \<and>
   log_all five_inserts None = Inr (Some (map Line five_inserts)) \<and>
   getSize (Some (map Line five_inserts)) = Inr 5 \<and>
   needsCheckpoint (WAL_new ''db/users.json'') (Some (map Line five_inserts)) = Inr False"
proof -
  have ne: "five_inserts \<noteq> []" by (simp add: five_inserts_def)
  have r: "readLog (Some (map Line five_inserts)) = Inr five_inserts"
    by (simp add: readLog_def parse_lines_Line)
  show ?thesis
    by (simp add: LuxDB_new_def mergeConfig_def cfg_small_def cfg_users_def or_default_def
        log_all_eq ne getSize_def needsCheckpoint_def r five_count WAL_new_def)
qed

text \<open>
  C9 as the code has it. Appending any entries and then a checkpoint that succeeds
  leaves a log that \<open>readLog\<close> reads as empty. Every \<open>WAL\<close> has the threshold 100, also the
  one a database constructs, whatever its configuration says; on a readable log
  \<open>needsCheckpoint\<close> is true exactly when the log has at least 100 entries.
\<close>

theorem checkpoint_and_threshold:
  "(\<exists>f1 f2. log_all es f = Inr f1 \<and> checkpoint None f1 = Inr f2 \<and> readLog f2 = Inr []) \<and>
   checkpointThreshold (WAL_new path) = 100 \<and>
   (\<forall>w. wal (LuxDB_new path cfg dfile wfile faults) = Some w \<longrightarrow> checkpointThreshold w = 100) \<and>
   (readLog g = Inr entries \<longrightarrow> needsCheckpoint (WAL_new path) g = Inr (100 \<le> length entries))"
proof -
  have 1: "\<exists>f1 f2. log_all es f = Inr f1 \<and> checkpoint None f1 = Inr f2 \<and> readLog f2 = Inr []"
    by (cases f; cases "es = []") (simp_all add: log_all_eq checkpoint_def readLog_def)
  have 2: "checkpointThreshold (WAL_new path) = 100" by (simp add: WAL_new_def)
  have 3: "\<forall>w. wal (LuxDB_new path cfg dfile wfile faults) = Some w \<longrightarrow> checkpointThreshold w = 100"
    by (auto simp: LuxDB_new_def Let_def WAL_new_def split: if_splits)
  have 4: "readLog g = Inr entries \<longrightarrow> needsCheckpoint (WAL_new path) g = Inr (100 \<le> length entries)"
    by (simp add: needsCheckpoint_def getSize_def WAL_new_def)
  from 1 2 3 4 show ?thesis by blast
qed

theorem checkpoint_and_threshold_witness:
  "log_all five_inserts None = Inr (Some (map Line five_inserts)) \<and>
   checkpoint None (Some (map Line five_inserts)) = Inr (Some []) \<and>
   readLog (Some []) = Inr [] \<and>
   wal (LuxDB_new ''db/users.json'' cfg_small None None []) = Some (WAL_new ''db/users.json'') \<and>
   checkpointThreshold (WAL_new ''db/users.json'') = 100 \<and>
   readLog (Some (map Line five_inserts)) = Inr five_inserts \<and>
   needsCheckpoint (WAL_new ''db/users.json'') (Some (map Line five_inserts)) =
     Inr (100 \<le> length five_inserts)"
proof -
  have ne: "five_inserts \<noteq> []" by (simp add: five_inserts_def)
  have l: "log_all five_inserts None = Inr (Some (map Line five_inserts))"
    by (simp add: log_all_eq ne)
  have c: "checkpoint None (Some (map Line five_inserts)) = Inr (Some [])"
    by (simp add: checkpoint_def)
  have e: "readLog (Some []) = Inr []" by (simp add: readLog_def)
  have w: "wal (LuxDB_new ''db/users.json'' cfg_small None None []) = Some (WAL_new ''db/users.json'')"
    by (simp add: LuxDB_new_def mergeConfig_def cfg_small_def cfg_users_def or_default_def)
  have r: "readLog (Some (map Line five_inserts)) = Inr five_inserts"
    by (simp add: readLog_def parse_lines_Line)
  note t = checkpoint_and_threshold [where es = five_inserts and f = None
      and path = "''db/users.json''" and cfg = cfg_small and dfile = None and wfile = None
      and faults = "[]" and g = "Some (map Line five_inserts)" and entries = five_inserts]
  from t w have th: "checkpointThreshold (WAL_new ''db/users.json'') = 100" by blast
  from t r have n: "needsCheckpoint (WAL_new ''db/users.json'') (Some (map Line five_inserts)) =
     Inr (100 \<le> length five_inserts)" by blast
  from l c e w th r n show ?thesis by (intro conjI)
qed

lemma Map_set_map_of: "map_of (Map_set k v m) = (map_of m)(k \<mapsto> v)"
  by (induction m) auto

lemma Map_set_keys: "fst ` set (Map_set k v m) = insert k (fst ` set m)"
  by (induction m) auto

lemma Map_set_distinct: "distinct (map fst m) \<Longrightarrow> distinct (map fst (Map_set k v m))"
  by (induction m) (auto simp: Map_set_keys)

lemma Map_delete_map_of: "map_of (Map_delete k m) = (map_of m)(k := None)"
  by (induction m) (auto simp: Map_delete_def)

lemma Map_delete_distinct: "distinct (map fst m) \<Longrightarrow> distinct (map fst (Map_delete k m))"
  by (simp add: Map_delete_def distinct_map_filter)

lemma since_last_marker_snoc:
  "since_last_marker t (es @ [e]) =
     (if transactionId e = Some t
      then (if is_marker e then [] else since_last_marker t es @ [e])
      else since_last_marker t es)"
  by (simp add: since_last_marker_def)

lemma since_last_marker_entries:
  "e \<in> set (since_last_marker t es) \<Longrightarrow> transactionId e = Some t \<and> \<not> is_marker e"
  unfolding since_last_marker_def set_rev
  by (auto dest!: set_takeWhileD)

lemma non_transactional_snoc:
  "non_transactional (es @ [e]) =
     (if \<not> truthy (transactionId e) \<and> \<not> is_marker e then non_transactional es @ [e]
      else non_transactional es)"
  by (simp add: non_transactional_def)

lemma truthy_Some: "truthy x \<Longrightarrow> x = Some (the x) \<and> the x \<noteq> []"
  by (cases x) (simp_all add: truthy_def)

lemma not_truthy_Some: "\<not> truthy x \<Longrightarrow> t \<noteq> [] \<Longrightarrow> x \<noteq> Some t"
  by (auto simp: truthy_def)

lemma replay_inv_step:
  assumes inv: "replay_inv es st"
  shows "replay_inv (es @ [e]) (replay_step st e)"
proof -
  obtain u m where st: "st = (u, m)" by (cases st)
  from inv st have u: "u = non_transactional es" and d: "distinct (map fst m)"
    and mp: "\<And>t. case map_of m t of
                    None \<Rightarrow> t \<noteq> [] \<longrightarrow> since_last_marker t es = []
                  | Some ops \<Rightarrow> t \<noteq> [] \<and> ops = since_last_marker t es"
    by (simp_all add: replay_inv_def)
  show ?thesis
  proof (cases "truthy (transactionId e)")
    case False
    have "case map_of m t of
             None \<Rightarrow> t \<noteq> [] \<longrightarrow> since_last_marker t (es @ [e]) = []
           | Some ops \<Rightarrow> t \<noteq> [] \<and> ops = since_last_marker t (es @ [e])" for t
      using mp [of t] not_truthy_Some [OF False, of t]
      by (auto simp: since_last_marker_snoc split: option.splits)
    with False u d show ?thesis
      by (simp add: replay_inv_def replay_step_def st non_transactional_snoc is_marker_def)
  next
    case True
    define tid where "tid = the (transactionId e)"
    from truthy_Some [OF True] have te: "transactionId e = Some tid" and tn: "tid \<noteq> []"
      by (simp_all add: tid_def)
    have nt: "non_transactional (es @ [e]) = non_transactional es"
      using True by (simp add: non_transactional_snoc)
    consider (marker_begin) "type e = BEGIN"
      | (marker_end) "type e = COMMIT \<or> type e = ROLLBACK"
      | (operation) "\<not> is_marker e"
      by (auto simp: is_marker_def)
    then show ?thesis
    proof cases
      case marker_begin
      then have s: "replay_step st e = (u, Map_set tid [] m)"
        using True by (simp add: replay_step_def st tid_def)
      have mk: "is_marker e" using marker_begin by (simp add: is_marker_def)
      have "case map_of (Map_set tid [] m) t of
             None \<Rightarrow> t \<noteq> [] \<longrightarrow> since_last_marker t (es @ [e]) = []
           | Some ops \<Rightarrow> t \<noteq> [] \<and> ops = since_last_marker t (es @ [e])" for t
        using mp [of t] te tn mk
        by (auto simp: Map_set_map_of since_last_marker_snoc split: option.splits)
      with u d nt show ?thesis
        by (simp add: replay_inv_def s Map_set_distinct)
    next
      case marker_end
      then have s: "replay_step st e = (u, Map_delete tid m)"
        using True by (auto simp: replay_step_def st tid_def)
      have mk: "is_marker e" using marker_end by (auto simp: is_marker_def)
      have "case map_of (Map_delete tid m) t of
             None \<Rightarrow> t \<noteq> [] \<longrightarrow> since_last_marker t (es @ [e]) = []
           | Some ops \<Rightarrow> t \<noteq> [] \<and> ops = since_last_marker t (es @ [e])" for t
        using mp [of t] te tn mk
        by (auto simp: Map_delete_map_of since_last_marker_snoc split: option.splits)
      with u d nt show ?thesis
        by (simp add: replay_inv_def s Map_delete_distinct)
    next
      case operation
      let ?ops = "case Map_get m tid of Some ops \<Rightarrow> ops | None \<Rightarrow> []"
      from operation have s: "replay_step st e = (u, Map_set tid (?ops @ [e]) m)"
        using True by (simp add: replay_step_def st tid_def is_marker_def Let_def)
      have o: "?ops = since_last_marker tid es"
        using mp [of tid] tn by (auto simp: Map_get_def split: option.splits)
      have "case map_of (Map_set tid (?ops @ [e]) m) t of
             None \<Rightarrow> t \<noteq> [] \<longrightarrow> since_last_marker t (es @ [e]) = []
           | Some ops \<Rightarrow> t \<noteq> [] \<and> ops = since_last_marker t (es @ [e])" for t
        unfolding o using mp [of t] te tn operation
        by (auto simp: Map_set_map_of since_last_marker_snoc split: option.splits)
      with u d nt show ?thesis
        by (simp add: replay_inv_def s Map_set_distinct)
    qed
  qed
qed

lemma replay_inv_foldl: "replay_inv es (foldl replay_step ([], []) es)"
proof (induction es rule: rev_induct)
  case Nil
  show ?case by (simp add: replay_inv_def non_transactional_def since_last_marker_def)
next
  case (snoc e es)
  then show ?case by (simp add: replay_inv_step)
qed

lemma filter_concat_values:
  "distinct (map fst m) \<Longrightarrow> (\<forall>kv\<in>set m. \<forall>e\<in>set (snd kv). transactionId e = Some (fst kv)) \<Longrightarrow>
     filter (\<lambda>e. transactionId e = Some t) (concat (map snd m)) =
       (case map_of m t of None \<Rightarrow> [] | Some ops \<Rightarrow> ops)"
proof (induction m)
  case Nil
  then show ?case by simp
next
  case (Cons kv m)
  obtain k ops where kv: "kv = (k, ops)" by (cases kv)
  from Cons.prems kv have own: "\<forall>e\<in>set ops. transactionId e = Some k"
    and dk: "k \<notin> fst ` set m" and IH: "filter (\<lambda>e. transactionId e = Some t) (concat (map snd m)) =
       (case map_of m t of None \<Rightarrow> [] | Some ops \<Rightarrow> ops)"
    using Cons.IH by auto
  show ?case
  proof (cases "k = t")
    case True
    with own have f: "filter (\<lambda>e. transactionId e = Some t) ops = ops" by (simp add: filter_id_conv)
    from dk True have "map_of m t = None" by (simp add: map_of_eq_None_iff)
    with IH f True kv show ?thesis by simp
  next
    case False
    with own have f: "filter (\<lambda>e. transactionId e = Some t) ops = []" by (auto simp: filter_empty_conv)
    with IH False kv show ?thesis by simp
  qed
qed

lemmas replay_eval = replay_entries_def replay_step_def truthy_def marker_entry_def op_entry_def
  Map_delete_def Map_get_def Map_values_def Let_def

text \<open>
  C4 as stated fails. In \<open>log_after_commit\<close> transaction \<open>t1\<close> reached its \<open>COMMIT\<close>, yet
  the insert logged for it afterwards is returned. In \<open>log_begin_late\<close> it never reached
  a \<open>COMMIT\<close> or \<open>ROLLBACK\<close>, yet the insert logged before its \<open>BEGIN\<close> is not returned.
\<close>

theorem replay_returns_entry_after_commit:
  "type (log_after_commit ! 1) = COMMIT \<and>
   transactionId (log_after_commit ! 1) = Some ''t1'' \<and>
   transactionId (log_after_commit ! 2) = Some ''t1'' \<and>
   replay_entries log_after_commit = [log_after_commit ! 2] \<and>
   replay (Some (map Line log_after_commit)) = Inr [op_entry 3 INSERT rec_active (Some ''t1'')] \<and>
   type (log_begin_late ! 0) = INSERT \<and>
   transactionId (log_begin_late ! 0) = Some ''t1'' \<and>
   type (log_begin_late ! 1) = BEGIN \<and>
   replay_entries log_begin_late = [log_begin_late ! 2]"
  by (simp add: log_after_commit_def log_begin_late_def replay_eval replay_def readLog_def)

text \<open>
  C4 as the code has it. The result of \<open>replay\<close> starts with the entries that have no
  transaction identifier (the empty string counts as none) and are not markers, in log
  order; every entry after them belongs to a transaction and is an operation. For each
  transaction identifier the result holds, in log order, exactly the operations logged
  for it after its last \<open>BEGIN\<close>, \<open>COMMIT\<close> or \<open>ROLLBACK\<close> marker (all of them if it has
  no marker). In particular \<open>BEGIN\<close>, \<open>INSERT\<close>, \<open>INSERT\<close> yields the two inserts in order,
  and the same log followed by the \<open>COMMIT\<close> of the transaction yields nothing.
\<close>

theorem replay_returns_open_operations:
  "(\<exists>rest. replay_entries es = non_transactional es @ rest \<and>
            (\<forall>e\<in>set rest. truthy (transactionId e) \<and> \<not> is_marker e)) \<and>
   (tid \<noteq> [] \<longrightarrow>
      filter (\<lambda>e. transactionId e = Some tid) (replay_entries es) = since_last_marker tid es) \<and>
   (tid \<noteq> [] \<longrightarrow>
      replay_entries [marker_entry n0 BEGIN tid, op_entry n1 INSERT v1 (Some tid),
                      op_entry n2 INSERT v2 (Some tid)] =
        [op_entry n1 INSERT v1 (Some tid), op_entry n2 INSERT v2 (Some tid)] \<and>
      replay_entries [marker_entry n0 BEGIN tid, op_entry n1 INSERT v1 (Some tid),
                      op_entry n2 INSERT v2 (Some tid), marker_entry n3 COMMIT tid] = [])"
proof -
  define st where "st = foldl replay_step ([], []) es"
  have inv: "replay_inv es st" unfolding st_def by (rule replay_inv_foldl)
  then have u: "fst st = non_transactional es" and d: "distinct (map fst (snd st))"
    and mp: "\<And>t. case map_of (snd st) t of
                    None \<Rightarrow> t \<noteq> [] \<longrightarrow> since_last_marker t es = []
                  | Some ops \<Rightarrow> t \<noteq> [] \<and> ops = since_last_marker t es"
    by (simp_all add: replay_inv_def)
  have r: "replay_entries es = non_transactional es @ concat (map snd (snd st))"
    by (simp add: replay_entries_def Let_def st_def [symmetric] u Map_values_def)
  have own: "transactionId e = Some (fst kv) \<and> \<not> is_marker e \<and> fst kv \<noteq> []"
    if "kv \<in> set (snd st)" "e \<in> set (snd kv)" for kv e
  proof -
    from that(1) d have "map_of (snd st) (fst kv) = Some (snd kv)" by simp
    with mp [of "fst kv"] have "fst kv \<noteq> []" "snd kv = since_last_marker (fst kv) es" by simp_all
    with that(2) since_last_marker_entries [of e "fst kv" es] show ?thesis by simp
  qed
  have 1: "\<forall>e\<in>set (concat (map snd (snd st))). truthy (transactionId e) \<and> \<not> is_marker e"
    using own by (auto simp: truthy_def)
  have 2: "filter (\<lambda>e. transactionId e = Some tid) (replay_entries es) = since_last_marker tid es"
    if t: "tid \<noteq> []"
  proof -
    have "filter (\<lambda>e. transactionId e = Some tid) (non_transactional es) = []"
      using t by (auto simp: non_transactional_def filter_empty_conv truthy_def)
    moreover have "filter (\<lambda>e. transactionId e = Some tid) (concat (map snd (snd st))) =
       (case map_of (snd st) tid of None \<Rightarrow> [] | Some ops \<Rightarrow> ops)"
      using d own by (intro filter_concat_values) auto
    moreover have "(case map_of (snd st) tid of None \<Rightarrow> [] | Some ops \<Rightarrow> ops) = since_last_marker tid es"
      using mp [of tid] t by (auto split: option.splits)
    ultimately show ?thesis by (simp add: r)
  qed
  have 3: "replay_entries [marker_entry n0 BEGIN tid, op_entry n1 INSERT v1 (Some tid),
                      op_entry n2 INSERT v2 (Some tid)] =
        [op_entry n1 INSERT v1 (Some tid), op_entry n2 INSERT v2 (Some tid)] \<and>
      replay_entries [marker_entry n0 BEGIN tid, op_entry n1 INSERT v1 (Some tid),
                      op_entry n2 INSERT v2 (Some tid), marker_entry n3 COMMIT tid] = []"
    if t: "tid \<noteq> []"
    using t by (simp add: replay_eval)
  from r 1 2 3 show ?thesis by blast
qed

theorem replay_returns_open_operations_witness:
  "''t1'' \<noteq> [] \<and>
   replay_entries log_after_commit =
     non_transactional log_after_commit @ [op_entry 3 INSERT rec_active (Some ''t1'')] \<and>
   truthy (transactionId (op_entry 3 INSERT rec_active (Some ''t1''))) \<and>
   \<not> is_marker (op_entry 3 INSERT rec_active (Some ''t1'')) \<and>
   since_last_marker ''t1'' log_after_commit = [op_entry 3 INSERT rec_active (Some ''t1'')] \<and>
   filter (\<lambda>e. transactionId e = Some ''t1'') (replay_entries log_after_commit) =
     [op_entry 3 INSERT rec_active (Some ''t1'')] \<and>
   replay_entries [marker_entry 1 BEGIN ''t1'', op_entry 2 INSERT rec_active (Some ''t1''),
                   op_entry 3 INSERT rec_inactive (Some ''t1'')] =
     [op_entry 2 INSERT rec_active (Some ''t1''), op_entry 3 INSERT rec_inactive (Some ''t1'')] \<and>
   replay_entries [marker_entry 1 BEGIN ''t1'', op_entry 2 INSERT rec_active (Some ''t1''),
                   op_entry 3 INSERT rec_inactive (Some ''t1''), marker_entry 4 COMMIT ''t1''] = []"
proof -
  have n: "''t1'' \<noteq> []" by simp
  have a: "replay_entries log_after_commit =
     non_transactional log_after_commit @ [op_entry 3 INSERT rec_active (Some ''t1'')]"
    by (simp add: log_after_commit_def replay_eval non_transactional_def is_marker_def)
  have b: "truthy (transactionId (op_entry 3 INSERT rec_active (Some ''t1'')))"
    "\<not> is_marker (op_entry 3 INSERT rec_active (Some ''t1''))"
    by (simp_all add: truthy_def op_entry_def is_marker_def)
  have s: "since_last_marker ''t1'' log_after_commit = [op_entry 3 INSERT rec_active (Some ''t1'')]"
    by (simp add: since_last_marker_def log_after_commit_def marker_entry_def op_entry_def is_marker_def)
  note t = replay_returns_open_operations [where es = log_after_commit and tid = "''t1''"
      and ?n0.0 = 1 and ?n1.0 = 2 and ?n2.0 = 3 and ?n3.0 = 4 and ?v1.0 = rec_active and ?v2.0 = rec_inactive]
  from t n have f: "filter (\<lambda>e. transactionId e = Some ''t1'') (replay_entries log_after_commit) =
     since_last_marker ''t1'' log_after_commit"
    by blast
  from t n have x: "replay_entries [marker_entry 1 BEGIN ''t1'', op_entry 2 INSERT rec_active (Some ''t1''),
                   op_entry 3 INSERT rec_inactive (Some ''t1'')] =
     [op_entry 2 INSERT rec_active (Some ''t1''), op_entry 3 INSERT rec_inactive (Some ''t1'')]"
    "replay_entries [marker_entry 1 BEGIN ''t1'', op_entry 2 INSERT rec_active (Some ''t1''),
                   op_entry 3 INSERT rec_inactive (Some ''t1''), marker_entry 4 COMMIT ''t1''] = []"
    by blast+
  from n a b s f [unfolded s] x show ?thesis by (intro conjI)
qed

end
